theory Spec2Isabelle
  imports Complex_Main "HOL-Library.Multiset" "HOL-Library.Log_Nat"
begin

section \<open>Variable-star light curves: period search and phase folding\<close>

text \<open>
  The development follows the notebook \<^verbatim>\<open>07b_Variable_Star_Lightcurves\<close>. The notebook is a
  linear script; each cell that computes something is embedded as a function of the
  variables it reads. Astropy's units (\<^verbatim>\<open>u.day\<close>, \<^verbatim>\<open>.value\<close>) only tag numbers and are
  dropped: times are days, frequencies are cycles per day.

  The cells are read at two levels. In the first, values of numpy's \<^verbatim>\<open>float64\<close> are taken
  as the real numbers they denote and arithmetic on them as exact; the non-finite
  results numpy produces without raising (\<^verbatim>\<open>inf\<close>, \<^verbatim>\<open>nan\<close>) are recorded as the error value
  \<open>NotFinite\<close>. This level carries the statements about the structure of the computation:
  which rows go to which band, which frequencies are averaged, which rows the query
  selects, which epoch a cell folds from. The second level, in the section on binary64
  below, is IEEE 754 double precision itself, with rounding to nearest, infinities and
  \<^verbatim>\<open>nan\<close>. It carries the statements that depend on rounding or on \<^verbatim>\<open>nan\<close>: the range and the
  periodicity of the phases, and what \<^verbatim>\<open>np.argmax\<close> returns. Its functions carry the suffix
  \<open>_f64\<close>.
\<close>

subsection \<open>Errors\<close>

text \<open>
  The notebook defines no exception class and catches none. What can stop a cell is an
  exception of a library it calls: \<open>LibraryRaised\<close> carries the name of whatever the
  periodogram library raises, the other constructors are numpy's and Python's own.
\<close>

datatype error =
    LibraryRaised string
  | ValueError
  | IndexError
  | KeyError
  | NotFinite

subsection \<open>numpy primitives used by the notebook\<close>

text \<open>
  \<^verbatim>\<open>np.mod(a, b)\<close> is the remainder that takes the sign of the divisor, in exact
  arithmetic \<open>a - floor (a / b) * b\<close>. The notebook only calls it with \<open>b = 1.0\<close>.
\<close>

definition np_mod :: "real \<Rightarrow> real \<Rightarrow> real" where
  "np_mod a b = a - of_int \<lfloor>a / b\<rfloor> * b"

text \<open>
  \<^verbatim>\<open>np.argmax\<close> scans the array once and replaces the running maximum only by a strictly
  larger entry, so the first position of the maximum is returned; an empty array raises
  \<^verbatim>\<open>ValueError\<close>. \<open>argmax_from xs i mp mi\<close> is the scan with \<open>xs\<close> still to read, \<open>i\<close> the
  index of its head, \<open>mp\<close> the running maximum and \<open>mi\<close> its index. This is the scan over
  real numbers; \<open>np_argmax_f64\<close> below is the scan over \<^verbatim>\<open>float64\<close>, where an entry can be
  \<^verbatim>\<open>nan\<close>.
\<close>

fun argmax_from :: "real list \<Rightarrow> nat \<Rightarrow> real \<Rightarrow> nat \<Rightarrow> nat" where
  "argmax_from [] i mp mi = mi"
| "argmax_from (x # xs) i mp mi =
     (if x > mp then argmax_from xs (Suc i) x i else argmax_from xs (Suc i) mp mi)"

definition np_argmax :: "real list \<Rightarrow> error + nat" where
  "np_argmax xs = (case xs of [] \<Rightarrow> Inl ValueError | x # rest \<Rightarrow> Inr (argmax_from rest 1 x 0))"

text \<open>
  \<^verbatim>\<open>np.mean\<close> is the sum over the number of entries; of an empty array it is \<^verbatim>\<open>nan\<close>
  (with a warning). \<^verbatim>\<open>np.min\<close> of an empty array raises \<^verbatim>\<open>ValueError\<close>.
\<close>

definition np_mean :: "real list \<Rightarrow> error + real" where
  "np_mean xs = (if xs = [] then Inl NotFinite else Inr (sum_list xs / real (length xs)))"

definition np_min :: "real list \<Rightarrow> error + real" where
  "np_min xs = (case xs of [] \<Rightarrow> Inl ValueError | x # rest \<Rightarrow> Inr (fold min rest x))"

text \<open>
  \<^verbatim>\<open>a[i]\<close> for an index produced by \<^verbatim>\<open>np.argmax\<close> (never negative): \<^verbatim>\<open>IndexError\<close> beyond
  the end.
\<close>

definition index :: "'a list \<Rightarrow> nat \<Rightarrow> error + 'a" where
  "index xs i = (if i < length xs then Inr (xs ! i) else Inl IndexError)"

text \<open>
  \<^verbatim>\<open>table[mask]\<close> with a boolean mask keeps the rows whose mask entry is true, in table
  order. Every mask of the notebook is computed from a column of the table it
  indexes, so it has the table's length.
\<close>

definition bool_index :: "'a list \<Rightarrow> bool list \<Rightarrow> 'a list" where
  "bool_index rows msk = map fst (filter snd (zip rows msk))"

text \<open>
  \<^verbatim>\<open>1 / x\<close> on a \<^verbatim>\<open>float64\<close>: \<^verbatim>\<open>inf\<close> for \<open>x = 0\<close>, which the model reports as \<open>NotFinite\<close>.
\<close>

definition reciprocal :: "real \<Rightarrow> error + real" where
  "reciprocal x = (if x = 0 then Inl NotFinite else Inr (1 / x))"

subsection \<open>Phase folding\<close>

text \<open>
  Both phase-folding cells compute, for every time \<open>t\<close> of an array,
  \<^verbatim>\<open>np.mod((t - t0) / period, 1.0)\<close>.
\<close>

definition phase_of :: "real \<Rightarrow> real \<Rightarrow> real \<Rightarrow> real" where
  "phase_of t0 period t = np_mod ((t - t0) / period) 1.0"

subsection \<open>Tables and dictionaries\<close>

text \<open>
  A row of the table \<^verbatim>\<open>srcs\<close> (the \<^verbatim>\<open>ForcedSource\<close> query joined with \<^verbatim>\<open>CcdVisit\<close>), with the
  columns the notebook reads afterwards.
\<close>

record forced_source =
  band :: string
  expMidptMJD :: real
  psfMag :: real

definition plot_filter_labels :: "string list" where
  "plot_filter_labels = [''u'', ''g'', ''r'', ''i'', ''z'', ''y'']"

type_synonym 'a dict = "string \<Rightarrow> 'a option"

definition lookup :: "'a dict \<Rightarrow> string \<Rightarrow> error + 'a" where
  "lookup d k = (case d k of None \<Rightarrow> Inl KeyError | Some v \<Rightarrow> Inr v)"

subsection \<open>Time-series extraction (cells 2.1.4 and 2.2.1)\<close>

text \<open>
  \<^verbatim>\<open>pick[filter] = (srcs['band'] == filter)\<close> for each of the six labels: a dictionary of
  boolean masks over the rows of \<^verbatim>\<open>srcs\<close>.
\<close>

definition pick :: "forced_source list \<Rightarrow> bool list dict" where
  "pick srcs =
     fold (\<lambda>fltr d. d(fltr \<mapsto> map (\<lambda>s. band s = fltr) srcs)) plot_filter_labels Map.empty"

text \<open>
  The loop that fills \<^verbatim>\<open>mjd_days\<close> and \<^verbatim>\<open>mags\<close> from \<^verbatim>\<open>srcs[pick[filter]]\<close>; the state is the
  pair of dictionaries.
\<close>

fun extract_loop ::
  "forced_source list \<Rightarrow> bool list dict \<Rightarrow> string list \<Rightarrow> real list dict \<times> real list dict
    \<Rightarrow> error + (real list dict \<times> real list dict)" where
  "extract_loop srcs pk [] (mjd_days, mags) = Inr (mjd_days, mags)"
| "extract_loop srcs pk (fltr # rest) (mjd_days, mags) =
     (case lookup pk fltr of
        Inl e \<Rightarrow> Inl e
      | Inr m \<Rightarrow>
          extract_loop srcs pk rest
            (mjd_days(fltr \<mapsto> map expMidptMJD (bool_index srcs m)),
             mags(fltr \<mapsto> map psfMag (bool_index srcs m))))"

definition extract_series :: "forced_source list \<Rightarrow> error + (real list dict \<times> real list dict)" where
  "extract_series srcs = extract_loop srcs (pick srcs) plot_filter_labels (Map.empty, Map.empty)"

subsection \<open>The periodogram library\<close>

text \<open>
  \<^verbatim>\<open>LombScargle(t, y).autopower(minimum_frequency, maximum_frequency)\<close> belongs to astropy,
  not to the notebook. It is a parameter of the model: given the times, the magnitudes
  and the two bounds it either raises (\<open>Inl\<close>, with the exception's name) or returns the
  arrays \<^verbatim>\<open>(frequency, pwr)\<close>.
\<close>

type_synonym lomb_scargle =
  "real list \<Rightarrow> real list \<Rightarrow> real \<Rightarrow> real \<Rightarrow> string + (real list \<times> real list)"

definition autopower ::
  "lomb_scargle \<Rightarrow> real list \<Rightarrow> real list \<Rightarrow> real \<Rightarrow> real \<Rightarrow> error + (real list \<times> real list)" where
  "autopower ls t y minimum_frequency maximum_frequency =
     (case ls t y minimum_frequency maximum_frequency of
        Inl name \<Rightarrow> Inl (LibraryRaised name)
      | Inr fp \<Rightarrow> Inr fp)"

subsection \<open>Period search for the known star (cell 2.2.1)\<close>

definition min_period :: real where
  "min_period = 0.05"

definition max_period :: real where
  "max_period = 1.05"

definition min_freq_search :: real where
  "min_freq_search = 1.0 / max_period"

definition max_freq_search :: real where
  "max_freq_search = 1.0 / min_period"

text \<open>
  The loop over the bands that fills \<^verbatim>\<open>frequency\<close> and \<^verbatim>\<open>power\<close> (\<open>pwr\<close> below). The two
  search bounds are arguments, so that the search range can be varied; the notebook
  passes \<open>min_freq_search\<close> and \<open>max_freq_search\<close>.
\<close>

fun periodogram_loop ::
  "lomb_scargle \<Rightarrow> real \<Rightarrow> real \<Rightarrow> real list dict \<Rightarrow> real list dict \<Rightarrow> string list
    \<Rightarrow> real list dict \<times> real list dict \<Rightarrow> error + (real list dict \<times> real list dict)" where
  "periodogram_loop ls fmin fmax mjd_days mags [] (frequency, pwr) = Inr (frequency, pwr)"
| "periodogram_loop ls fmin fmax mjd_days mags (fltr # rest) (frequency, pwr) =
     (case lookup mjd_days fltr of
        Inl e \<Rightarrow> Inl e
      | Inr t \<Rightarrow>
          (case lookup mags fltr of
             Inl e \<Rightarrow> Inl e
           | Inr y \<Rightarrow>
               (case autopower ls t y fmin fmax of
                  Inl e \<Rightarrow> Inl e
                | Inr (f, p) \<Rightarrow>
                    periodogram_loop ls fmin fmax mjd_days mags rest
                      (frequency(fltr \<mapsto> f), pwr(fltr \<mapsto> p)))))"

text \<open>
  The loop that appends, for each band, \<^verbatim>\<open>frequency[filter][np.argmax(power[filter])]\<close> to
  \<^verbatim>\<open>all_peak_freqs\<close>.
\<close>

fun peak_loop ::
  "real list dict \<Rightarrow> real list dict \<Rightarrow> string list \<Rightarrow> real list \<Rightarrow> error + real list" where
  "peak_loop frequency pwr [] all_peak_freqs = Inr all_peak_freqs"
| "peak_loop frequency pwr (fltr # rest) all_peak_freqs =
     (case lookup pwr fltr of
        Inl e \<Rightarrow> Inl e
      | Inr p \<Rightarrow>
          (case np_argmax p of
             Inl e \<Rightarrow> Inl e
           | Inr peakbin \<Rightarrow>
               (case lookup frequency fltr of
                  Inl e \<Rightarrow> Inl e
                | Inr f \<Rightarrow>
                    (case index f peakbin of
                       Inl e \<Rightarrow> Inl e
                     | Inr v \<Rightarrow> peak_loop frequency pwr rest (all_peak_freqs @ [v])))))"

definition mean_peak_freq :: "real list dict \<Rightarrow> real list dict \<Rightarrow> error + real" where
  "mean_peak_freq frequency pwr =
     (case peak_loop frequency pwr plot_filter_labels [] of
        Inl e \<Rightarrow> Inl e
      | Inr all_peak_freqs \<Rightarrow> np_mean all_peak_freqs)"

text \<open>
  Cells 2.1.4 to 2.2.2 in sequence, from the table to the pair
  \<^verbatim>\<open>(mean_peak_freq, best_period)\<close> with \<^verbatim>\<open>best_period = 1/mean_peak_freq\<close>.
\<close>

definition best_period ::
  "lomb_scargle \<Rightarrow> real \<Rightarrow> real \<Rightarrow> forced_source list \<Rightarrow> error + (real \<times> real)" where
  "best_period ls fmin fmax srcs =
     (case extract_series srcs of
        Inl e \<Rightarrow> Inl e
      | Inr (mjd_days, mags) \<Rightarrow>
          (case periodogram_loop ls fmin fmax mjd_days mags plot_filter_labels
                  (Map.empty, Map.empty) of
             Inl e \<Rightarrow> Inl e
           | Inr (frequency, pwr) \<Rightarrow>
               (case mean_peak_freq frequency pwr of
                  Inl e \<Rightarrow> Inl e
                | Inr m \<Rightarrow>
                    (case reciprocal m of
                       Inl e \<Rightarrow> Inl e
                     | Inr bp \<Rightarrow> Inr (m, bp)))))"

subsection \<open>The epoch of the known star (cell 2.2.2)\<close>

text \<open>
  \<^verbatim>\<open>t0 = np.min(mjd_days['g'].value)\<close>: the epoch from which the known star's times are
  folded. The loop that folds them is \<open>phase_loop_f64\<close> below.
\<close>

definition phase_t0 :: "real list dict \<Rightarrow> error + real" where
  "phase_t0 mjd_days = (case lookup mjd_days ''g'' of Inl e \<Rightarrow> Inl e | Inr g \<Rightarrow> np_min g)"

subsection \<open>Candidate selection (cell 3.1)\<close>

text \<open>
  The rows of the catalog tables \<^verbatim>\<open>DiaObject\<close> and \<^verbatim>\<open>DiaSource\<close>, with the columns the
  \<^verbatim>\<open>WHERE\<close> and \<^verbatim>\<open>ON\<close> clauses of the query read. Column values are numbers: a \<^verbatim>\<open>NULL\<close>
  stored in the catalog is not modelled.
\<close>

record dia_object =
  diaObjectId :: int
  ra :: real
  decl :: real
  gTOTFluxMean :: real
  gTOTFluxSigma :: real
  gPSFluxNdata :: int
  gPSFluxStetsonJ :: real

record dia_source =
  src_diaObjectId :: int
  filterName :: string
  midPointTai :: real
  totFlux :: real

text \<open>
  The query text carries its thresholds as literals. They are gathered in a record so
  that a threshold can be varied; \<open>default_thresholds\<close> holds the literals of the
  notebook, in the order of the \<^verbatim>\<open>WHERE\<close> clause.
\<close>

record thresholds =
  loRatio :: real
  hiRatio :: real
  loMag :: real
  hiMag :: real
  minCount :: int
  minVariabilityStatistic :: real
  radius :: real

definition default_thresholds :: thresholds where
  "default_thresholds =
     \<lparr>loRatio = 0.25, hiRatio = 1.25, loMag = 18, hiMag = 23, minCount = 30,
      minVariabilityStatistic = 20, radius = 5.0\<rparr>"

definition ra_known_rrl :: real where
  "ra_known_rrl = 62.1479031"

definition dec_known_rrl :: real where
  "dec_known_rrl = -35.799138"

text \<open>
  Two functions of the query service are used by the clause and are parameters here:
  \<^verbatim>\<open>scisql_nanojanskyToAbMag\<close>, whose result may be \<^verbatim>\<open>NULL\<close> (\<open>None\<close>), and the geometric test
  \<^verbatim>\<open>CONTAINS(POINT('ICRS', ra, decl), CIRCLE('ICRS', ra0, dec0, r)) = 1\<close>.
\<close>

record tap_service =
  scisql_nanojanskyToAbMag :: "real \<Rightarrow> real option"
  contains_circle :: "real \<times> real \<Rightarrow> real \<times> real \<Rightarrow> real \<Rightarrow> bool"

text \<open>
  SQL arithmetic and comparison: a division by zero is \<^verbatim>\<open>NULL\<close>, a comparison with
  \<^verbatim>\<open>NULL\<close> is not true, and a row is kept only when the clause is true.
\<close>

definition sql_div :: "real \<Rightarrow> real \<Rightarrow> real option" where
  "sql_div a b = (if b = 0 then None else Some (a / b))"

definition sql_gt :: "real option \<Rightarrow> real \<Rightarrow> bool" where
  "sql_gt a c = (case a of None \<Rightarrow> False | Some x \<Rightarrow> x > c)"

definition sql_lt :: "real option \<Rightarrow> real \<Rightarrow> bool" where
  "sql_lt a c = (case a of None \<Rightarrow> False | Some x \<Rightarrow> x < c)"

definition where_clause ::
  "thresholds \<Rightarrow> tap_service \<Rightarrow> dia_object \<Rightarrow> dia_source \<Rightarrow> bool" where
  "where_clause th svc obj src \<longleftrightarrow>
     sql_gt (sql_div (gTOTFluxSigma obj) (gTOTFluxMean obj)) (loRatio th) \<and>
     sql_lt (sql_div (gTOTFluxSigma obj) (gTOTFluxMean obj)) (hiRatio th) \<and>
     sql_gt (scisql_nanojanskyToAbMag svc (gTOTFluxMean obj)) (loMag th) \<and>
     sql_lt (scisql_nanojanskyToAbMag svc (gTOTFluxMean obj)) (hiMag th) \<and>
     gPSFluxNdata obj > minCount th \<and>
     gPSFluxStetsonJ obj > minVariabilityStatistic th \<and>
     filterName src = ''g'' \<and>
     contains_circle svc (ra obj, decl obj) (ra_known_rrl, dec_known_rrl) (radius th)"

text \<open>
  The query: \<^verbatim>\<open>DiaObject JOIN DiaSource ON src.diaObjectId = obj.diaObjectId WHERE ...\<close>. The
  result is kept as the list of joined pairs; the projection onto the selected columns
  decides nothing.
\<close>

definition query ::
  "thresholds \<Rightarrow> tap_service \<Rightarrow> dia_object list \<Rightarrow> dia_source list
    \<Rightarrow> (dia_object \<times> dia_source) list" where
  "query th svc DiaObject DiaSource =
     [(obj, src). obj \<leftarrow> DiaObject, src \<leftarrow> DiaSource,
        src_diaObjectId src = diaObjectId obj \<and> where_clause th svc obj src]"

subsection \<open>Phase folding of a candidate (cell 3.3)\<close>

text \<open>
  For one object: \<^verbatim>\<open>obj_period = 1 / LSfreq[i]\<close>, \<^verbatim>\<open>t0 = 0.0\<close>, and the array of phases. The
  epoch is returned with the phases.
\<close>

definition obj_phase :: "real list \<Rightarrow> real \<Rightarrow> error + (real \<times> real list)" where
  "obj_phase obj_mjd_days LSfreq_i =
     (case reciprocal LSfreq_i of
        Inl e \<Rightarrow> Inl e
      | Inr obj_period \<Rightarrow>
          (let t0 = 0.0 in Inr (t0, map (phase_of t0 obj_period) obj_mjd_days)))"

section \<open>The cells in binary64\<close>

subsection \<open>Numbers and rounding\<close>

text \<open>
  A \<^verbatim>\<open>float64\<close> is a finite number, an infinity or \<^verbatim>\<open>nan\<close>. The finite ones are the rationals
  \<open>n * 2 ^ (e - 52)\<close> with \<open>\<bar>n\<bar> < 2 ^ 53\<close> and \<open>- 1022 \<le> e \<le> 1023\<close>; a value \<open>Finite x\<close> that is
  passed to a cell is meant to be one of them. Zero carries no sign: no comparison of
  the notebook tells \<^verbatim>\<open>-0.0\<close> from \<^verbatim>\<open>0.0\<close>.
\<close>

datatype f64 = Finite rat | PosInf | NegInf | NaN

text \<open>
  \<open>round64 x\<close> is the \<^verbatim>\<open>float64\<close> nearest to the rational \<open>x\<close>, ties to the even significand:
  with \<open>e\<close> the binary exponent of \<open>\<bar>x\<bar>\<close>, not below \<open>- 1022\<close> (where the subnormal numbers
  start), the spacing is \<open>2 ^ (e - 52)\<close>, and a result that reaches \<open>2 ^ 1024\<close> is an
  infinity. \<open>ilog2 a\<close> is the exponent \<open>\<lfloor>log\<^sub>2 a\<rfloor>\<close> of a positive rational, from the bit
  lengths of its numerator and denominator.
\<close>

definition round_half_even :: "rat \<Rightarrow> int" where
  "round_half_even z =
     (let f = \<lfloor>z\<rfloor>; d = z - of_int f
      in if d < 1 / 2 then f else if 1 / 2 < d then f + 1 else if even f then f else f + 1)"

definition ilog2 :: "rat \<Rightarrow> int" where
  "ilog2 a =
     (let (p, q) = quotient_of a; k = bitlen p - bitlen q
      in if 2 powi k \<le> a then k else k - 1)"

definition round64 :: "rat \<Rightarrow> f64" where
  "round64 x =
     (if x = 0 then Finite 0
      else
        let a = \<bar>x\<bar>;
            e = max (ilog2 a) (- 1022);
            u = 2 powi (e - 52);
            y = of_int (round_half_even (a / u)) * u
        in if 2 powi 1024 \<le> y then (if 0 < x then PosInf else NegInf)
           else Finite (if 0 < x then y else - y))"

text \<open>
  \<^verbatim>\<open>np.isnan\<close>, and the comparisons \<^verbatim>\<open><=\<close> and \<^verbatim>\<open><\<close>, which are false whenever an operand is
  \<^verbatim>\<open>nan\<close>.
\<close>

definition isnan :: "f64 \<Rightarrow> bool" where
  "isnan a = (case a of NaN \<Rightarrow> True | _ \<Rightarrow> False)"

fun f64_le :: "f64 \<Rightarrow> f64 \<Rightarrow> bool" where
  "f64_le NaN b = False"
| "f64_le a NaN = False"
| "f64_le NegInf b = True"
| "f64_le a PosInf = True"
| "f64_le PosInf b = False"
| "f64_le a NegInf = False"
| "f64_le (Finite x) (Finite y) = (x \<le> y)"

fun f64_lt :: "f64 \<Rightarrow> f64 \<Rightarrow> bool" where
  "f64_lt NaN b = False"
| "f64_lt a NaN = False"
| "f64_lt PosInf b = False"
| "f64_lt a NegInf = False"
| "f64_lt NegInf b = True"
| "f64_lt a PosInf = True"
| "f64_lt (Finite x) (Finite y) = (x < y)"

text \<open>
  \<^verbatim>\<open>a + b\<close>, \<^verbatim>\<open>a - b\<close> and \<^verbatim>\<open>a / b\<close> on \<^verbatim>\<open>float64\<close>: the exact result, rounded once. numpy raises
  for none of them; a division by zero gives an infinity or \<^verbatim>\<open>nan\<close> (with a warning).
\<close>

fun add_f64 :: "f64 \<Rightarrow> f64 \<Rightarrow> f64" where
  "add_f64 NaN b = NaN"
| "add_f64 a NaN = NaN"
| "add_f64 PosInf NegInf = NaN"
| "add_f64 NegInf PosInf = NaN"
| "add_f64 PosInf b = PosInf"
| "add_f64 a PosInf = PosInf"
| "add_f64 NegInf b = NegInf"
| "add_f64 a NegInf = NegInf"
| "add_f64 (Finite x) (Finite y) = round64 (x + y)"

fun sub_f64 :: "f64 \<Rightarrow> f64 \<Rightarrow> f64" where
  "sub_f64 NaN b = NaN"
| "sub_f64 a NaN = NaN"
| "sub_f64 PosInf PosInf = NaN"
| "sub_f64 NegInf NegInf = NaN"
| "sub_f64 PosInf b = PosInf"
| "sub_f64 a PosInf = NegInf"
| "sub_f64 NegInf b = NegInf"
| "sub_f64 a NegInf = PosInf"
| "sub_f64 (Finite x) (Finite y) = round64 (x - y)"

fun div_f64 :: "f64 \<Rightarrow> f64 \<Rightarrow> f64" where
  "div_f64 NaN b = NaN"
| "div_f64 a NaN = NaN"
| "div_f64 PosInf PosInf = NaN"
| "div_f64 PosInf NegInf = NaN"
| "div_f64 NegInf PosInf = NaN"
| "div_f64 NegInf NegInf = NaN"
| "div_f64 PosInf (Finite y) = (if y < 0 then NegInf else PosInf)"
| "div_f64 NegInf (Finite y) = (if y < 0 then PosInf else NegInf)"
| "div_f64 (Finite x) PosInf = Finite 0"
| "div_f64 (Finite x) NegInf = Finite 0"
| "div_f64 (Finite x) (Finite y) =
     (if y = 0 then (if x = 0 then NaN else if 0 < x then PosInf else NegInf)
      else round64 (x / y))"

subsection \<open>numpy primitives on \<^verbatim>\<open>float64\<close>\<close>

text \<open>
  \<^verbatim>\<open>np.mod\<close> on \<^verbatim>\<open>float64\<close> starts from C's \<^verbatim>\<open>fmod(a, b)\<close>, the exact remainder
  \<open>a - b * trunc (a / b)\<close>, which has the sign of \<open>a\<close> and is \<^verbatim>\<open>nan\<close> for an infinite \<open>a\<close> or a
  zero \<open>b\<close>. When the remainder is not zero and its sign differs from that of \<open>b\<close>, numpy
  adds \<open>b\<close> to it, and that addition rounds; for \<open>b = 0\<close> the result of \<^verbatim>\<open>fmod\<close> is returned.
\<close>

definition trunc :: "rat \<Rightarrow> int" where
  "trunc x = (if 0 \<le> x then \<lfloor>x\<rfloor> else \<lceil>x\<rceil>)"

fun fmod :: "f64 \<Rightarrow> f64 \<Rightarrow> f64" where
  "fmod NaN b = NaN"
| "fmod a NaN = NaN"
| "fmod PosInf b = NaN"
| "fmod NegInf b = NaN"
| "fmod (Finite x) PosInf = Finite x"
| "fmod (Finite x) NegInf = Finite x"
| "fmod (Finite x) (Finite y) =
     (if y = 0 then NaN else Finite (x - y * of_int (trunc (x / y))))"

definition np_mod_f64 :: "f64 \<Rightarrow> f64 \<Rightarrow> f64" where
  "np_mod_f64 a b =
     (let rem = fmod a b
      in if b = Finite 0 then rem
         else if rem \<noteq> Finite 0
           then (if f64_lt b (Finite 0) \<noteq> f64_lt rem (Finite 0) then add_f64 rem b else rem)
           else Finite 0)"

text \<open>
  \<^verbatim>\<open>np.argmax\<close> on \<^verbatim>\<open>float64\<close>: a \<^verbatim>\<open>nan\<close> is maximal. If the first entry is \<^verbatim>\<open>nan\<close> the result is 0;
  otherwise the scan replaces the running maximum \<open>mp\<close> by an entry \<open>x\<close> when \<^verbatim>\<open>!(x <= mp)\<close>,
  which holds for a larger \<open>x\<close> and for \<^verbatim>\<open>nan\<close>, and stops at the first \<^verbatim>\<open>nan\<close>. An empty array
  raises \<^verbatim>\<open>ValueError\<close>.
\<close>

fun argmax_from_f64 :: "f64 list \<Rightarrow> nat \<Rightarrow> f64 \<Rightarrow> nat \<Rightarrow> nat" where
  "argmax_from_f64 [] i mp mi = mi"
| "argmax_from_f64 (x # xs) i mp mi =
     (if \<not> f64_le x mp
      then (if isnan x then i else argmax_from_f64 xs (Suc i) x i)
      else argmax_from_f64 xs (Suc i) mp mi)"

definition np_argmax_f64 :: "f64 list \<Rightarrow> error + nat" where
  "np_argmax_f64 xs =
     (case xs of
        [] \<Rightarrow> Inl ValueError
      | x # rest \<Rightarrow> Inr (if isnan x then 0 else argmax_from_f64 rest 1 x 0))"

text \<open>
  \<^verbatim>\<open>np.min\<close> on \<^verbatim>\<open>float64\<close> reduces the array with \<^verbatim>\<open>minimum\<close>, which keeps its first operand
  when that is smaller or \<^verbatim>\<open>nan\<close> and takes the second otherwise, so that a \<^verbatim>\<open>nan\<close> entry makes
  the result \<^verbatim>\<open>nan\<close>. An empty array raises \<^verbatim>\<open>ValueError\<close>.
\<close>

definition minimum_f64 :: "f64 \<Rightarrow> f64 \<Rightarrow> f64" where
  "minimum_f64 a b = (if f64_lt a b \<or> isnan a then a else b)"

definition np_min_f64 :: "f64 list \<Rightarrow> error + f64" where
  "np_min_f64 xs =
     (case xs of [] \<Rightarrow> Inl ValueError | x # rest \<Rightarrow> Inr (fold (\<lambda>b a. minimum_f64 a b) rest x))"

subsection \<open>The periodogram library and the peak of a periodogram\<close>

text \<open>
  The library as a parameter, with \<^verbatim>\<open>float64\<close> arrays: it raises or returns the arrays
  \<^verbatim>\<open>(frequency, pwr)\<close>, whose entries can be \<^verbatim>\<open>nan\<close>.
\<close>

type_synonym lomb_scargle_f64 =
  "f64 list \<Rightarrow> f64 list \<Rightarrow> f64 \<Rightarrow> f64 \<Rightarrow> string + (f64 list \<times> f64 list)"

definition autopower_f64 ::
  "lomb_scargle_f64 \<Rightarrow> f64 list \<Rightarrow> f64 list \<Rightarrow> f64 \<Rightarrow> f64 \<Rightarrow> error + (f64 list \<times> f64 list)" where
  "autopower_f64 ls t y minimum_frequency maximum_frequency =
     (case ls t y minimum_frequency maximum_frequency of
        Inl name \<Rightarrow> Inl (LibraryRaised name)
      | Inr fp \<Rightarrow> Inr fp)"

text \<open>
  The loop of cell 2.2.1 that appends, for each band,
  \<^verbatim>\<open>frequency[filter][np.argmax(power[filter])]\<close> to \<^verbatim>\<open>all_peak_freqs\<close>.
\<close>

fun peak_loop_f64 ::
  "f64 list dict \<Rightarrow> f64 list dict \<Rightarrow> string list \<Rightarrow> f64 list \<Rightarrow> error + f64 list" where
  "peak_loop_f64 frequency pwr [] all_peak_freqs = Inr all_peak_freqs"
| "peak_loop_f64 frequency pwr (fltr # rest) all_peak_freqs =
     (case lookup pwr fltr of
        Inl e \<Rightarrow> Inl e
      | Inr p \<Rightarrow>
          (case np_argmax_f64 p of
             Inl e \<Rightarrow> Inl e
           | Inr peakbin \<Rightarrow>
               (case lookup frequency fltr of
                  Inl e \<Rightarrow> Inl e
                | Inr f \<Rightarrow>
                    (case index f peakbin of
                       Inl e \<Rightarrow> Inl e
                     | Inr v \<Rightarrow> peak_loop_f64 frequency pwr rest (all_peak_freqs @ [v])))))"

subsection \<open>Period search for all candidates (cell 3.2)\<close>

text \<open>
  A row of the result table \<^verbatim>\<open>dia_sources\<close>, with the columns the loop reads:
  \<^verbatim>\<open>diaObjectId\<close>, \<^verbatim>\<open>midPointTai\<close> and the magnitude \<^verbatim>\<open>gmag\<close>.
\<close>

record dia_row =
  row_diaObjectId :: int
  row_midPointTai :: f64
  gmag :: f64

definition np_unique :: "int list \<Rightarrow> int list" where
  "np_unique xs = sort (remdups xs)"

definition minfreq_f64 :: f64 where
  "minfreq_f64 = div_f64 (Finite 1) (round64 1.25)"

definition maxfreq_f64 :: f64 where
  "maxfreq_f64 = div_f64 (Finite 1) (round64 0.05)"

text \<open>
  The body of the loop for one object, from its two arrays: the periodogram, the index
  \<^verbatim>\<open>max_power = np.argmax(obj_power)\<close>, and the pair
  \<^verbatim>\<open>(obj_power[max_power], obj_frequency[max_power])\<close> that is appended to \<^verbatim>\<open>LSpower\<close> and
  \<^verbatim>\<open>LSfreq\<close>. The cell makes no test on the number of points of the object.
\<close>

definition object_peak_f64 ::
  "lomb_scargle_f64 \<Rightarrow> f64 list \<Rightarrow> f64 list \<Rightarrow> error + (f64 \<times> f64)" where
  "object_peak_f64 ls obj_mjd_days obj_mags =
     (case autopower_f64 ls obj_mjd_days obj_mags minfreq_f64 maxfreq_f64 of
        Inl e \<Rightarrow> Inl e
      | Inr (obj_frequency, obj_power) \<Rightarrow>
          (case np_argmax_f64 obj_power of
             Inl e \<Rightarrow> Inl e
           | Inr max_power \<Rightarrow>
               (case index obj_power max_power of
                  Inl e \<Rightarrow> Inl e
                | Inr p \<Rightarrow>
                    (case index obj_frequency max_power of
                       Inl e \<Rightarrow> Inl e
                     | Inr f \<Rightarrow> Inr (p, f)))))"

fun candidates_loop_f64 ::
  "lomb_scargle_f64 \<Rightarrow> dia_row list \<Rightarrow> int list \<Rightarrow> f64 list \<times> f64 list
    \<Rightarrow> error + (f64 list \<times> f64 list)" where
  "candidates_loop_f64 ls dia_sources [] (LSpower, LSfreq) = Inr (LSpower, LSfreq)"
| "candidates_loop_f64 ls dia_sources (objid # rest) (LSpower, LSfreq) =
     (let findobj = map (\<lambda>r. row_diaObjectId r = objid) dia_sources;
          obj_mjd_days = map row_midPointTai (bool_index dia_sources findobj);
          obj_mags = map gmag (bool_index dia_sources findobj)
      in case object_peak_f64 ls obj_mjd_days obj_mags of
           Inl e \<Rightarrow> Inl e
         | Inr (p, f) \<Rightarrow> candidates_loop_f64 ls dia_sources rest (LSpower @ [p], LSfreq @ [f]))"

definition lomb_scargle_all_f64 ::
  "lomb_scargle_f64 \<Rightarrow> dia_row list \<Rightarrow> error + (f64 list \<times> f64 list)" where
  "lomb_scargle_all_f64 ls dia_sources =
     candidates_loop_f64 ls dia_sources (np_unique (map row_diaObjectId dia_sources)) ([], [])"

subsection \<open>Phase folding (cells 2.2.2 and 3.3)\<close>

text \<open>
  Both phase-folding cells compute, for every time \<open>t\<close> of an array,
  \<^verbatim>\<open>np.mod((t - t0) / period, 1.0)\<close>: a subtraction, a division and the remainder, each
  rounded. Neither cell tests the period.
\<close>

definition phase_of_f64 :: "f64 \<Rightarrow> f64 \<Rightarrow> f64 \<Rightarrow> f64" where
  "phase_of_f64 t0 period t = np_mod_f64 (div_f64 (sub_f64 t t0) period) (Finite 1)"

text \<open>
  Cell 2.2.2: \<^verbatim>\<open>t0 = np.min(mjd_days['g'].value)\<close>, then for every band the array of phases.
\<close>

fun phase_loop_f64 ::
  "f64 list dict \<Rightarrow> f64 \<Rightarrow> f64 \<Rightarrow> string list \<Rightarrow> f64 list dict \<Rightarrow> error + f64 list dict" where
  "phase_loop_f64 mjd_days t0 bp [] phase = Inr phase"
| "phase_loop_f64 mjd_days t0 bp (fltr # rest) phase =
     (case lookup mjd_days fltr of
        Inl e \<Rightarrow> Inl e
      | Inr t \<Rightarrow> phase_loop_f64 mjd_days t0 bp rest (phase(fltr \<mapsto> map (phase_of_f64 t0 bp) t)))"

definition phase_f64 :: "f64 list dict \<Rightarrow> f64 \<Rightarrow> error + f64 list dict" where
  "phase_f64 mjd_days bp =
     (case lookup mjd_days ''g'' of
        Inl e \<Rightarrow> Inl e
      | Inr g \<Rightarrow>
          (case np_min_f64 g of
             Inl e \<Rightarrow> Inl e
           | Inr t0 \<Rightarrow> phase_loop_f64 mjd_days t0 bp plot_filter_labels Map.empty))"

text \<open>
  Cell 3.3, for one object: \<^verbatim>\<open>obj_period = 1 / LSfreq[i]\<close>, \<^verbatim>\<open>t0 = 0.0\<close>, and the array of
  phases. The epoch is returned with the phases.
\<close>

definition obj_phase_f64 :: "f64 list \<Rightarrow> f64 \<Rightarrow> f64 \<times> f64 list" where
  "obj_phase_f64 obj_mjd_days LSfreq_i =
     (let obj_period = div_f64 (Finite 1) LSfreq_i;
          t0 = Finite 0
      in (t0, map (phase_of_f64 t0 obj_period) obj_mjd_days))"

subsection \<open>Example data\<close>

text \<open>
  Concrete inputs on which the model is evaluated below. \<open>example_library\<close> stands in for
  the periodogram library: it raises on an empty series, as a reduction over an empty
  array does, and otherwise returns a three-point grid over the search range whose
  last two powers are tied. \<open>example_service\<close> stands in for the query service, with the
  AB magnitude of a flux in nanojansky and a flat-sky distance test.
\<close>

definition example_library :: lomb_scargle where
  "example_library t y minimum_frequency maximum_frequency =
     (if t = [] then Inl ''ValueError''
      else Inr ([minimum_frequency, (minimum_frequency + maximum_frequency) / 2, maximum_frequency],
                [1, real (length t), real (length t)]))"

definition example_srcs :: "forced_source list" where
  "example_srcs =
     [\<lparr>band = ''g'', expMidptMJD = 59000.5, psfMag = 18.2\<rparr>,
      \<lparr>band = ''r'', expMidptMJD = 59000.25, psfMag = 18.1\<rparr>,
      \<lparr>band = ''u'', expMidptMJD = 59001.5, psfMag = 18.9\<rparr>,
      \<lparr>band = ''g'', expMidptMJD = 59002.75, psfMag = 18.6\<rparr>,
      \<lparr>band = ''i'', expMidptMJD = 59003.5, psfMag = 18.0\<rparr>,
      \<lparr>band = ''z'', expMidptMJD = 59004.5, psfMag = 18.3\<rparr>,
      \<lparr>band = ''y'', expMidptMJD = 59005.5, psfMag = 18.4\<rparr>]"

definition example_service :: tap_service where
  "example_service =
     \<lparr>scisql_nanojanskyToAbMag =
        (\<lambda>flux. if flux > 0 then Some (31.4 - 2.5 * log 10 flux) else None),
      contains_circle =
        (\<lambda>(a, d) (a0, d0) r. 0 \<le> r \<and> (a - a0)\<^sup>2 + (d - d0)\<^sup>2 \<le> r\<^sup>2)\<rparr>"

definition example_object :: dia_object where
  "example_object =
     \<lparr>diaObjectId = 1, ra = ra_known_rrl, decl = dec_known_rrl, gTOTFluxMean = 100000,
      gTOTFluxSigma = 50000, gPSFluxNdata = 40, gPSFluxStetsonJ = 25\<rparr>"

definition example_source :: dia_source where
  "example_source =
     \<lparr>src_diaObjectId = 1, filterName = ''g'', midPointTai = 59000.5, totFlux = 90000\<rparr>"

text \<open>
  An object observed in the bands g and r only, and the stand-in for the library in
  binary64: it raises on an empty series; for a single point it returns one frequency
  and one power, both \<^verbatim>\<open>nan\<close>, as astropy does (the grid spacing is the reciprocal of a zero
  baseline, and \<^verbatim>\<open>inf * 0\<close> is \<^verbatim>\<open>nan\<close>); otherwise it returns a three-point grid within the
  search range whose last two powers are tied.
\<close>

definition example_srcs_gr :: "forced_source list" where
  "example_srcs_gr =
     [\<lparr>band = ''g'', expMidptMJD = 59000.5, psfMag = 18.2\<rparr>,
      \<lparr>band = ''r'', expMidptMJD = 59000.25, psfMag = 18.1\<rparr>,
      \<lparr>band = ''g'', expMidptMJD = 59002.75, psfMag = 18.6\<rparr>,
      \<lparr>band = ''r'', expMidptMJD = 59003.5, psfMag = 18.0\<rparr>]"

definition example_library_f64 :: lomb_scargle_f64 where
  "example_library_f64 t y minimum_frequency maximum_frequency =
     (if t = [] then Inl ''ValueError''
      else if length t = 1 then Inr ([NaN], [NaN])
      else Inr ([Finite 1, Finite 2, Finite 4],
                [Finite 1, Finite (of_nat (length t)), Finite (of_nat (length t))]))"

section \<open>Properties\<close>

subsection \<open>The numpy primitives\<close>

lemma np_mod_one: "np_mod x 1 = frac x"
  by (simp add: np_mod_def frac_def)



lemma np_min_is_Min:
  assumes "xs \<noteq> []"
  shows "np_min xs = Inr (Min (set xs))"
proof -
  from assms obtain x rest where xs: "xs = x # rest" by (cases xs) auto
  show ?thesis unfolding xs np_min_def by (simp only: list.case Min.set_eq_fold)
qed

lemma bool_index_map: "bool_index rows (map P rows) = filter P rows"
  by (induction rows) (auto simp: bool_index_def)



subsection \<open>The epoch of the known star\<close>

lemma known_star_epoch_is_min_g:
  assumes "mjd_days ''g'' = Some g" "g \<noteq> []"
  shows "phase_t0 mjd_days = Inr (Min (set g))"
  using assms by (simp add: phase_t0_def lookup_def np_min_is_Min)

subsection \<open>Time-series extraction\<close>

lemma fold_upd_apply:
  "fold (\<lambda>k d. d(k \<mapsto> g k)) ks d0 b = (if b \<in> set ks then Some (g b) else d0 b)"
  by (induction ks arbitrary: d0) auto

lemma pick_apply:
  "pick srcs b =
     (if b \<in> set plot_filter_labels then Some (map (\<lambda>s. band s = b) srcs) else None)"
  by (simp add: pick_def fold_upd_apply)

lemma extract_loop_result:
  assumes "\<forall>b\<in>set ks. pk b = Some (m b)"
  shows "extract_loop srcs pk ks (md, mg) =
         Inr (\<lambda>b. if b \<in> set ks then Some (map expMidptMJD (bool_index srcs (m b))) else md b,
              \<lambda>b. if b \<in> set ks then Some (map psfMag (bool_index srcs (m b))) else mg b)"
  using assms
proof (induction ks arbitrary: md mg)
  case Nil
  then show ?case by simp
next
  case (Cons k ks)
  then show ?case
    by (auto simp: lookup_def fun_eq_iff)
qed

lemma extract_series_result:
  "extract_series srcs =
     Inr (\<lambda>b. if b \<in> set plot_filter_labels
               then Some (map expMidptMJD (filter (\<lambda>s. band s = b) srcs)) else None,
          \<lambda>b. if b \<in> set plot_filter_labels
               then Some (map psfMag (filter (\<lambda>s. band s = b) srcs)) else None)"
proof -
  have "\<forall>b\<in>set plot_filter_labels. pick srcs b = Some (map (\<lambda>s. band s = b) srcs)"
    by (simp add: pick_apply)
  from extract_loop_result [OF this, of srcs Map.empty Map.empty]
  show ?thesis unfolding bool_index_map by (simp add: extract_series_def)
qed

lemma distinct_labels: "distinct plot_filter_labels"
  by (simp add: plot_filter_labels_def)

lemma sum_list_indicator:
  assumes "distinct ks" "y \<in> set ks"
  shows "(\<Sum>b\<leftarrow>ks. if y = b then 1 else 0) = (1::nat)"
  using assms
proof (induction ks)
  case Nil
  then show ?case by simp
next
  case (Cons k ks)
  have zero: "y \<notin> set ks \<Longrightarrow> (\<Sum>b\<leftarrow>ks. if y = b then 1 else 0) = (0::nat)"
    by (induction ks) auto
  from Cons zero show ?case by auto
qed

text \<open>
  Counting a list key by key, over distinct keys, counts the entries whose key is
  listed.
\<close>

lemma sum_filter_partition:
  assumes "distinct ks"
  shows "(\<Sum>b\<leftarrow>ks. length (filter (\<lambda>s. f s = b) xs)) = length (filter (\<lambda>s. f s \<in> set ks) xs)"
proof (induction xs)
  case Nil
  then show ?case by simp
next
  case (Cons x xs)
  have zero: "f x \<notin> set ks \<Longrightarrow> (\<Sum>b\<leftarrow>ks. if f x = b then 1 else 0) = (0::nat)"
    by (induction ks) auto
  have "(\<Sum>b\<leftarrow>ks. length (filter (\<lambda>s. f s = b) (x # xs))) =
        (\<Sum>b\<leftarrow>ks. (if f x = b then 1 else 0) + length (filter (\<lambda>s. f s = b) xs))"
    by (rule arg_cong [where f = sum_list]) (auto intro: map_cong)
  also have "\<dots> = (\<Sum>b\<leftarrow>ks. if f x = b then 1 else 0)
                    + (\<Sum>b\<leftarrow>ks. length (filter (\<lambda>s. f s = b) xs))"
    by (simp add: sum_list_addf)
  finally show ?case
    using Cons assms zero by (cases "f x \<in> set ks") (simp_all add: sum_list_indicator)
qed

text \<open>
  C8. For every table of observations the extractor returns the two dictionaries, and
  the band partitions are disjoint and complete. Each of the six labels gets the mask
  and the series of the rows whose \<open>band\<close> field equals the label, in table order; no
  row index is set in the masks of two different labels; the per-band counts add up
  to the number of rows whose band is one of the six labels, hence to the number of
  rows of the table when every row carries one of the six labels, as the data model
  of an observation requires.
\<close>

theorem extractor_partition:
  "\<exists>mjd_days mags.
     extract_series srcs = Inr (mjd_days, mags) \<and>
     (\<forall>b\<in>set plot_filter_labels.
        pick srcs b = Some (map (\<lambda>s. band s = b) srcs) \<and>
        mjd_days b = Some (map expMidptMJD (filter (\<lambda>s. band s = b) srcs)) \<and>
        mags b = Some (map psfMag (filter (\<lambda>s. band s = b) srcs))) \<and>
     (\<forall>b1 b2 m1 m2 i.
        pick srcs b1 = Some m1 \<and> pick srcs b2 = Some m2 \<and> b1 \<noteq> b2 \<and> i < length srcs
        \<longrightarrow> \<not> (m1 ! i \<and> m2 ! i)) \<and>
     (\<Sum>b\<leftarrow>plot_filter_labels. length (the (mjd_days b))) =
        length (filter (\<lambda>s. band s \<in> set plot_filter_labels) srcs) \<and>
     ((\<forall>s\<in>set srcs. band s \<in> set plot_filter_labels) \<longrightarrow>
        (\<Sum>b\<leftarrow>plot_filter_labels. length (the (mjd_days b))) = length srcs)"
proof -
  let ?md = "\<lambda>b. if b \<in> set plot_filter_labels
                  then Some (map expMidptMJD (filter (\<lambda>s. band s = b) srcs)) else None"
  let ?mg = "\<lambda>b. if b \<in> set plot_filter_labels
                  then Some (map psfMag (filter (\<lambda>s. band s = b) srcs)) else None"
  have ex: "extract_series srcs = Inr (?md, ?mg)"
    by (rule extract_series_result)
  have content: "\<forall>b\<in>set plot_filter_labels.
        pick srcs b = Some (map (\<lambda>s. band s = b) srcs) \<and>
        ?md b = Some (map expMidptMJD (filter (\<lambda>s. band s = b) srcs)) \<and>
        ?mg b = Some (map psfMag (filter (\<lambda>s. band s = b) srcs))"
    by (simp add: pick_apply)
  have disj: "\<forall>b1 b2 m1 m2 i.
        pick srcs b1 = Some m1 \<and> pick srcs b2 = Some m2 \<and> b1 \<noteq> b2 \<and> i < length srcs
        \<longrightarrow> \<not> (m1 ! i \<and> m2 ! i)"
    by (auto simp: pick_apply split: if_splits)
  have "(\<Sum>b\<leftarrow>plot_filter_labels. length (the (?md b))) =
        (\<Sum>b\<leftarrow>plot_filter_labels. length (filter (\<lambda>s. band s = b) srcs))"
    by (rule arg_cong [where f = sum_list]) (auto intro: map_cong)
  then have count: "(\<Sum>b\<leftarrow>plot_filter_labels. length (the (?md b))) =
        length (filter (\<lambda>s. band s \<in> set plot_filter_labels) srcs)"
    by (simp only: sum_filter_partition [OF distinct_labels])
  have complete: "(\<forall>s\<in>set srcs. band s \<in> set plot_filter_labels) \<longrightarrow>
        (\<Sum>b\<leftarrow>plot_filter_labels. length (the (?md b))) = length srcs"
    using count by (simp only: filter_True) simp
  from ex content disj count complete show ?thesis by blast
qed

theorem extractor_partition_witness:
  "\<exists>mjd_days mags.
     extract_series example_srcs = Inr (mjd_days, mags) \<and>
     mjd_days ''g'' = Some [59000.5, 59002.75] \<and>
     (\<Sum>b\<leftarrow>plot_filter_labels. length (the (mjd_days b))) = length example_srcs"
proof -
  have wf: "\<forall>s\<in>set example_srcs. band s \<in> set plot_filter_labels"
    by (simp add: example_srcs_def plot_filter_labels_def)
  have g: "''g'' \<in> set plot_filter_labels"
    by (simp add: plot_filter_labels_def)
  have gs: "map expMidptMJD (filter (\<lambda>s. band s = ''g'') example_srcs) = [59000.5, 59002.75]"
    by (simp add: example_srcs_def)
  from extractor_partition [of example_srcs] obtain mjd_days mags where
    ex: "extract_series example_srcs = Inr (mjd_days, mags)"
    and content: "\<forall>b\<in>set plot_filter_labels.
        pick example_srcs b = Some (map (\<lambda>s. band s = b) example_srcs) \<and>
        mjd_days b = Some (map expMidptMJD (filter (\<lambda>s. band s = b) example_srcs)) \<and>
        mags b = Some (map psfMag (filter (\<lambda>s. band s = b) example_srcs))"
    and complete: "(\<forall>s\<in>set example_srcs. band s \<in> set plot_filter_labels) \<longrightarrow>
        (\<Sum>b\<leftarrow>plot_filter_labels. length (the (mjd_days b))) = length example_srcs"
    by blast
  from content g gs have "mjd_days ''g'' = Some [59000.5, 59002.75]" by simp
  moreover from complete wf
  have "(\<Sum>b\<leftarrow>plot_filter_labels. length (the (mjd_days b))) = length example_srcs" by blast
  ultimately show ?thesis using ex by blast
qed

subsection \<open>Period search\<close>

lemma periodogram_loop_result:
  assumes "\<forall>b\<in>set ks. md b = Some (T b) \<and> mg b = Some (Y b) \<and>
             ls (T b) (Y b) fmin fmax = Inr (F b, Pw b)"
  shows "periodogram_loop ls fmin fmax md mg ks (fr, pw) =
         Inr (\<lambda>b. if b \<in> set ks then Some (F b) else fr b,
              \<lambda>b. if b \<in> set ks then Some (Pw b) else pw b)"
  using assms
proof (induction ks arbitrary: fr pw)
  case Nil
  then show ?case by simp
next
  case (Cons k ks)
  then show ?case
    by (auto simp: lookup_def autopower_def fun_eq_iff)
qed

lemma peak_loop_result:
  assumes "\<forall>b\<in>set ks. fr b = Some (F b) \<and> pw b = Some (Pw b) \<and>
             np_argmax (Pw b) = Inr (k b) \<and> k b < length (F b)"
  shows "peak_loop fr pw ks acc = Inr (acc @ map (\<lambda>b. F b ! k b) ks)"
  using assms
proof (induction ks arbitrary: acc)
  case Nil
  then show ?case by simp
next
  case (Cons b ks)
  then show ?case
    by (simp add: lookup_def index_def)
qed

text \<open>
  The whole chain of the known-star cells, when the library returns a periodogram for
  each of the six bands.
\<close>

lemma best_period_result:
  assumes lib: "\<forall>b\<in>set plot_filter_labels.
      ls (map expMidptMJD (filter (\<lambda>s. band s = b) srcs))
         (map psfMag (filter (\<lambda>s. band s = b) srcs)) fmin fmax = Inr (F b, Pw b) \<and>
      np_argmax (Pw b) = Inr (k b) \<and> k b < length (F b)"
    and m: "m = sum_list (map (\<lambda>b. F b ! k b) plot_filter_labels)
                / real (length plot_filter_labels)"
    and nz: "m \<noteq> 0"
  shows "best_period ls fmin fmax srcs = Inr (m, 1 / m)"
proof -
  let ?md = "\<lambda>b. if b \<in> set plot_filter_labels
                  then Some (map expMidptMJD (filter (\<lambda>s. band s = b) srcs)) else None"
  let ?mg = "\<lambda>b. if b \<in> set plot_filter_labels
                  then Some (map psfMag (filter (\<lambda>s. band s = b) srcs)) else None"
  let ?fr = "\<lambda>b. if b \<in> set plot_filter_labels then Some (F b) else None"
  let ?pw = "\<lambda>b. if b \<in> set plot_filter_labels then Some (Pw b) else None"
  have ex: "extract_series srcs = Inr (?md, ?mg)"
    by (rule extract_series_result)
  have pg: "periodogram_loop ls fmin fmax ?md ?mg plot_filter_labels (Map.empty, Map.empty)
              = Inr (?fr, ?pw)"
    by (rule periodogram_loop_result
          [where T = "\<lambda>b. map expMidptMJD (filter (\<lambda>s. band s = b) srcs)"
             and Y = "\<lambda>b. map psfMag (filter (\<lambda>s. band s = b) srcs)"])
       (use lib in simp)
  have pk: "peak_loop ?fr ?pw plot_filter_labels []
              = Inr ([] @ map (\<lambda>b. F b ! k b) plot_filter_labels)"
    by (rule peak_loop_result [where Pw = Pw]) (use lib in simp)
  have ne: "map (\<lambda>b. F b ! k b) plot_filter_labels \<noteq> []"
    by (simp add: plot_filter_labels_def)
  have mean: "mean_peak_freq ?fr ?pw = Inr m"
    unfolding mean_peak_freq_def pk m using ne by (simp add: np_mean_def)
  show ?thesis
    unfolding best_period_def ex using nz by (simp add: pg mean reciprocal_def)
qed

subsection \<open>Consensus over the bands\<close>

text \<open>
  The loop over the bands stops at the first band for which the library raises.
\<close>

lemma periodogram_loop_raises:
  assumes "\<forall>b\<in>set ks. md b = Some (T b) \<and> mg b = Some (Y b)"
    and "\<exists>b\<in>set ks. \<exists>n. ls (T b) (Y b) fmin fmax = Inl n"
  shows "\<exists>n. periodogram_loop ls fmin fmax md mg ks (fr, pw) = Inl (LibraryRaised n)"
  using assms
proof (induction ks arbitrary: fr pw)
  case Nil
  then show ?case by simp
next
  case (Cons k ks)
  show ?case
  proof (cases "ls (T k) (Y k) fmin fmax")
    case (Inl n)
    with Cons.prems(1) show ?thesis by (simp add: lookup_def autopower_def)
  next
    case (Inr fp)
    obtain f p where fp: "fp = (f, p)" by (cases fp)
    from Cons.prems(2) Inr have ex: "\<exists>b\<in>set ks. \<exists>n. ls (T b) (Y b) fmin fmax = Inl n" by auto
    from Cons.prems(1) have all: "\<forall>b\<in>set ks. md b = Some (T b) \<and> mg b = Some (Y b)" by simp
    from Cons.IH [OF all ex]
    obtain n where "periodogram_loop ls fmin fmax md mg ks (fr(k \<mapsto> f), pw(k \<mapsto> p))
                      = Inl (LibraryRaised n)" by blast
    with Cons.prems(1) Inr fp show ?thesis by (simp add: lookup_def autopower_def)
  qed
qed

lemma example_library_bands:
  "\<forall>b\<in>set plot_filter_labels.
      example_library (map expMidptMJD (filter (\<lambda>s. band s = b) example_srcs))
         (map psfMag (filter (\<lambda>s. band s = b) example_srcs)) min_freq_search max_freq_search
        = Inr ([20 / 21, 220 / 21, 20], if b = ''g'' then [1, 2, 2] else [1, 1, 1]) \<and>
      np_argmax (if b = ''g'' then [1, 2, 2] else [1, 1, 1]) = Inr (if b = ''g'' then 1 else 0) \<and>
      (if b = ''g'' then 1 else 0) < length [20 / 21, 220 / 21, 20 :: real]"
  by (simp add: plot_filter_labels_def example_srcs_def example_library_def np_argmax_def
        min_freq_search_def max_freq_search_def min_period_def max_period_def)


text \<open>
  C3, as the notebook has it. The consensus always runs over the six bands u, g, r, i,
  z, y, whatever the bands the object was observed in. Whenever the library returns,
  for each of the six bands, a periodogram whose \<^verbatim>\<open>np.argmax\<close> of the power is a valid index
  \<open>k b\<close> of the frequency grid \<open>F b\<close>, and the mean \<open>m\<close> of the six frequencies \<open>F b ! k b\<close> is not
  zero, the cells return \<open>(m, 1 / m)\<close>: the arithmetic mean of the per-band best
  frequencies and its reciprocal. Whenever the library raises for the series of one of
  the six bands, as it does for a band in which the object has no observation, the
  cells stop with that exception and report no consensus.
\<close>

theorem consensus_mean_or_abort:
  "((\<forall>b\<in>set plot_filter_labels.
        ls (map expMidptMJD (filter (\<lambda>s. band s = b) srcs))
           (map psfMag (filter (\<lambda>s. band s = b) srcs)) fmin fmax = Inr (F b, Pw b) \<and>
        np_argmax (Pw b) = Inr (k b) \<and> k b < length (F b)) \<and>
     m = sum_list (map (\<lambda>b. F b ! k b) plot_filter_labels) / real (length plot_filter_labels) \<and>
     m \<noteq> 0 \<longrightarrow>
     best_period ls fmin fmax srcs = Inr (m, 1 / m)) \<and>
   ((\<exists>b\<in>set plot_filter_labels. \<exists>name.
        ls (map expMidptMJD (filter (\<lambda>s. band s = b) srcs))
           (map psfMag (filter (\<lambda>s. band s = b) srcs)) fmin fmax = Inl name) \<longrightarrow>
     (\<exists>name. best_period ls fmin fmax srcs = Inl (LibraryRaised name)))"
proof (intro conjI impI)
  assume a: "(\<forall>b\<in>set plot_filter_labels.
        ls (map expMidptMJD (filter (\<lambda>s. band s = b) srcs))
           (map psfMag (filter (\<lambda>s. band s = b) srcs)) fmin fmax = Inr (F b, Pw b) \<and>
        np_argmax (Pw b) = Inr (k b) \<and> k b < length (F b)) \<and>
     m = sum_list (map (\<lambda>b. F b ! k b) plot_filter_labels) / real (length plot_filter_labels) \<and>
     m \<noteq> 0"
  then have lib: "\<forall>b\<in>set plot_filter_labels.
        ls (map expMidptMJD (filter (\<lambda>s. band s = b) srcs))
           (map psfMag (filter (\<lambda>s. band s = b) srcs)) fmin fmax = Inr (F b, Pw b) \<and>
        np_argmax (Pw b) = Inr (k b) \<and> k b < length (F b)"
    and m: "m = sum_list (map (\<lambda>b. F b ! k b) plot_filter_labels)
                / real (length plot_filter_labels)"
    and nz: "m \<noteq> 0" by blast+
  from lib m nz show "best_period ls fmin fmax srcs = Inr (m, 1 / m)"
    by (rule best_period_result)
next
  let ?md = "\<lambda>b. if b \<in> set plot_filter_labels
                  then Some (map expMidptMJD (filter (\<lambda>s. band s = b) srcs)) else None"
  let ?mg = "\<lambda>b. if b \<in> set plot_filter_labels
                  then Some (map psfMag (filter (\<lambda>s. band s = b) srcs)) else None"
  assume ex: "\<exists>b\<in>set plot_filter_labels. \<exists>name.
        ls (map expMidptMJD (filter (\<lambda>s. band s = b) srcs))
           (map psfMag (filter (\<lambda>s. band s = b) srcs)) fmin fmax = Inl name"
  have es: "extract_series srcs = Inr (?md, ?mg)"
    by (rule extract_series_result)
  have "\<exists>n. periodogram_loop ls fmin fmax ?md ?mg plot_filter_labels (Map.empty, Map.empty)
              = Inl (LibraryRaised n)"
    by (rule periodogram_loop_raises
          [where T = "\<lambda>b. map expMidptMJD (filter (\<lambda>s. band s = b) srcs)"
             and Y = "\<lambda>b. map psfMag (filter (\<lambda>s. band s = b) srcs)"])
       (use ex in simp_all)
  then obtain n where
    "periodogram_loop ls fmin fmax ?md ?mg plot_filter_labels (Map.empty, Map.empty)
       = Inl (LibraryRaised n)" by blast
  then have "best_period ls fmin fmax srcs = Inl (LibraryRaised n)"
    unfolding best_period_def es by simp
  then show "\<exists>name. best_period ls fmin fmax srcs = Inl (LibraryRaised name)" by blast
qed

theorem consensus_mean_or_abort_witness:
  "best_period example_library min_freq_search max_freq_search example_srcs
     = Inr (160 / 63, 63 / 160) \<and>
   (\<exists>name. best_period example_library min_freq_search max_freq_search example_srcs_gr
             = Inl (LibraryRaised name))"
proof -
  have m: "(160 / 63 :: real) =
      sum_list (map (\<lambda>b. [20 / 21, 220 / 21, 20] ! (if b = ''g'' then 1 else 0))
                  plot_filter_labels)
        / real (length plot_filter_labels)"
    by (simp add: plot_filter_labels_def)
  have nz: "(160 / 63 :: real) \<noteq> 0" by simp
  from consensus_mean_or_abort
         [where F = "\<lambda>b. [20 / 21, 220 / 21, 20]"
            and Pw = "\<lambda>b. if b = ''g'' then [1, 2, 2] else [1, 1, 1]"
            and k = "\<lambda>b. if b = ''g'' then 1 else 0"
            and ls = example_library and srcs = example_srcs
            and fmin = min_freq_search and fmax = max_freq_search
            and m = "160 / 63"] example_library_bands m nz
  have 1: "best_period example_library min_freq_search max_freq_search example_srcs
             = Inr (160 / 63, 1 / (160 / 63))" by blast
  have u: "\<exists>b\<in>set plot_filter_labels. \<exists>name.
        example_library (map expMidptMJD (filter (\<lambda>s. band s = b) example_srcs_gr))
           (map psfMag (filter (\<lambda>s. band s = b) example_srcs_gr))
           min_freq_search max_freq_search = Inl name"
    by (simp add: plot_filter_labels_def example_srcs_gr_def example_library_def)
  from consensus_mean_or_abort
         [where ls = example_library and srcs = example_srcs_gr
            and fmin = min_freq_search and fmax = max_freq_search] u
  have 2: "\<exists>name. best_period example_library min_freq_search max_freq_search example_srcs_gr
             = Inl (LibraryRaised name)" by blast
  from 1 2 show ?thesis by simp
qed

text \<open>
  C3 as stated fails for an object with observations in several bands but not in all
  six: the object of \<open>example_srcs_gr\<close> has two observations in g and two in r, the series
  of the band u is empty, the library raises for it, and the cells report no consensus
  frequency and no period.
\<close>

theorem two_band_object_counterexample:
  "best_period example_library min_freq_search max_freq_search example_srcs_gr
     = Inl (LibraryRaised ''ValueError'')"
proof -
  have es: "extract_series example_srcs_gr =
      Inr (\<lambda>b. if b \<in> set plot_filter_labels
                then Some (map expMidptMJD (filter (\<lambda>s. band s = b) example_srcs_gr)) else None,
           \<lambda>b. if b \<in> set plot_filter_labels
                then Some (map psfMag (filter (\<lambda>s. band s = b) example_srcs_gr)) else None)"
    by (rule extract_series_result)
  show ?thesis
    unfolding best_period_def es
    by (simp add: plot_filter_labels_def example_srcs_gr_def example_library_def lookup_def
          autopower_def)
qed




subsection \<open>Candidate selection\<close>

lemma log10_1e5: "log 10 100000 = (5::real)"
proof -
  have "log 10 ((10::real) ^ 5) = real 5"
    by (rule log_pow_cancel) simp_all
  then show ?thesis by simp
qed

lemma example_object_selected:
  "where_clause default_thresholds example_service example_object example_source"
  by (simp add: where_clause_def default_thresholds_def example_service_def example_object_def
        example_source_def sql_gt_def sql_lt_def sql_div_def log10_1e5)

text \<open>
  C4, as the notebook has it. With the default thresholds the lower bound on the
  variability statistic is exclusive: an object whose \<^verbatim>\<open>gPSFluxStetsonJ\<close> equals exactly 20
  is never selected, while raising the statistic of a selected object to any value
  above 20 keeps it selected; likewise any count above 30 keeps a selected object
  selected.
\<close>

theorem default_lower_bounds:
  "(gPSFluxStetsonJ obj = 20 \<longrightarrow> \<not> where_clause default_thresholds svc obj src) \<and>
   (where_clause default_thresholds svc obj src \<and> 20 < v \<longrightarrow>
      where_clause default_thresholds svc (obj\<lparr>gPSFluxStetsonJ := v\<rparr>) src) \<and>
   (where_clause default_thresholds svc obj src \<and> 30 < n \<longrightarrow>
      where_clause default_thresholds svc (obj\<lparr>gPSFluxNdata := n\<rparr>) src)"
  by (simp add: where_clause_def default_thresholds_def)

theorem default_lower_bounds_witness:
  "\<not> where_clause default_thresholds example_service
       (example_object\<lparr>gPSFluxStetsonJ := 20\<rparr>) example_source \<and>
   where_clause default_thresholds example_service
       (example_object\<lparr>gPSFluxStetsonJ := 20.5\<rparr>) example_source \<and>
   where_clause default_thresholds example_service
       (example_object\<lparr>gPSFluxNdata := 31\<rparr>) example_source"
proof -
  have b: "gPSFluxStetsonJ (example_object\<lparr>gPSFluxStetsonJ := 20\<rparr>) = 20" by simp
  from default_lower_bounds
         [of "example_object\<lparr>gPSFluxStetsonJ := 20\<rparr>" example_service example_source
             "20.5" "31"] b
  have 1: "\<not> where_clause default_thresholds example_service
               (example_object\<lparr>gPSFluxStetsonJ := 20\<rparr>) example_source"
    by blast
  from default_lower_bounds [of example_object example_service example_source "20.5" "31"]
    example_object_selected
  have 2: "where_clause default_thresholds example_service
             (example_object\<lparr>gPSFluxStetsonJ := 20.5\<rparr>) example_source"
    and 3: "where_clause default_thresholds example_service
             (example_object\<lparr>gPSFluxNdata := 31\<rparr>) example_source"
    by simp_all
  from 1 2 3 show ?thesis by blast
qed

text \<open>
  C4 as stated fails: an object that passes every other criterion (ratio 0.5, magnitude
  18.9, 40 detections, at the reference position, a g-band source) and whose
  variability statistic equals exactly 20 is rejected.
\<close>

theorem boundary_variability_counterexample:
  "\<not> where_clause default_thresholds example_service
       (example_object\<lparr>gPSFluxStetsonJ := 20\<rparr>) example_source"
  by (simp add: where_clause_def default_thresholds_def example_object_def)

lemma mset_concat_map: "mset (concat (map f xs)) = (\<Sum>x\<in>#mset xs. mset (f x))"
  by (induction xs) simp_all

lemma query_perm:
  assumes "mset A = mset A'" "mset B = mset B'"
  shows "mset (query th svc A B) = mset (query th svc A' B')"
  using assms by (simp add: query_def mset_concat_map)

lemma where_clause_mono:
  assumes "loRatio th' \<le> loRatio th" "hiRatio th \<le> hiRatio th'"
    "loMag th' \<le> loMag th" "hiMag th \<le> hiMag th'"
    "minCount th' \<le> minCount th"
    "minVariabilityStatistic th' \<le> minVariabilityStatistic th"
    "radius th \<le> radius th'"
    and geo: "\<forall>p c r r'. r \<le> r' \<and> contains_circle svc p c r \<longrightarrow> contains_circle svc p c r'"
    and sel: "where_clause th svc obj src"
  shows "where_clause th' svc obj src"
proof -
  from sel
  have c: "contains_circle svc (ra obj, decl obj) (ra_known_rrl, dec_known_rrl) (radius th)"
    by (simp add: where_clause_def)
  with geo assms(7)
  have "contains_circle svc (ra obj, decl obj) (ra_known_rrl, dec_known_rrl) (radius th')"
    by blast
  with sel assms(1-6) show ?thesis
    by (auto simp: where_clause_def sql_gt_def sql_lt_def split: option.splits)
qed

text \<open>
  C5. The candidate filter is a pure, deterministic, order-independent predicate that
  is monotonic in its thresholds. Let \<open>th'\<close> be \<open>th\<close> with thresholds loosened (a lower
  bound no higher, an upper bound no lower, a radius no smaller; in particular one
  threshold loosened and the others equal), on a service whose circle test keeps a
  point inside when the radius grows. Then a pair selected under \<open>th\<close> is selected
  under \<open>th'\<close>, and the query under \<open>th\<close> returns a subset of the query under \<open>th'\<close>.
  Whether a joined pair is returned depends on the pair alone, and permuting the rows
  of the two tables permutes the result.
\<close>

theorem candidate_filter_monotone:
  assumes "loRatio th' \<le> loRatio th" "hiRatio th \<le> hiRatio th'"
    "loMag th' \<le> loMag th" "hiMag th \<le> hiMag th'"
    "minCount th' \<le> minCount th"
    "minVariabilityStatistic th' \<le> minVariabilityStatistic th"
    "radius th \<le> radius th'"
    and geo: "\<forall>p c r r'. r \<le> r' \<and> contains_circle svc p c r \<longrightarrow> contains_circle svc p c r'"
  shows "(where_clause th svc obj src \<longrightarrow> where_clause th' svc obj src) \<and>
         set (query th svc DiaObject DiaSource) \<subseteq> set (query th' svc DiaObject DiaSource) \<and>
         ((obj, src) \<in> set (query th svc DiaObject DiaSource) \<longleftrightarrow>
            obj \<in> set DiaObject \<and> src \<in> set DiaSource \<and>
            src_diaObjectId src = diaObjectId obj \<and> where_clause th svc obj src) \<and>
         (mset DiaObject = mset DiaObject' \<and> mset DiaSource = mset DiaSource' \<longrightarrow>
            mset (query th svc DiaObject DiaSource) = mset (query th svc DiaObject' DiaSource'))"
proof (intro conjI)
  have mono: "where_clause th' svc o1 s1" if "where_clause th svc o1 s1" for o1 s1
    using assms that by (rule where_clause_mono)
  show "where_clause th svc obj src \<longrightarrow> where_clause th' svc obj src"
    using mono by blast
  show "set (query th svc DiaObject DiaSource) \<subseteq> set (query th' svc DiaObject DiaSource)"
    using mono by (auto simp: query_def)
  show "(obj, src) \<in> set (query th svc DiaObject DiaSource) \<longleftrightarrow>
            obj \<in> set DiaObject \<and> src \<in> set DiaSource \<and>
            src_diaObjectId src = diaObjectId obj \<and> where_clause th svc obj src"
    by (auto simp: query_def)
  show "mset DiaObject = mset DiaObject' \<and> mset DiaSource = mset DiaSource' \<longrightarrow>
            mset (query th svc DiaObject DiaSource) = mset (query th svc DiaObject' DiaSource')"
    by (blast intro: query_perm)
qed

lemma example_service_monotone:
  "\<forall>p c r r'. r \<le> r' \<and> contains_circle example_service p c r
      \<longrightarrow> contains_circle example_service p c r'"
proof (intro allI impI)
  fix p c :: "real \<times> real" and r r' :: real
  assume a: "r \<le> r' \<and> contains_circle example_service p c r"
  obtain a1 d1 a0 d0 where p: "p = (a1, d1)" and c: "c = (a0, d0)"
    by (cases p, cases c) auto
  from a have r: "0 \<le> r" and le: "r \<le> r'"
    and inside: "(a1 - a0)\<^sup>2 + (d1 - d0)\<^sup>2 \<le> r\<^sup>2"
    by (simp_all add: example_service_def p c)
  from le r have "r\<^sup>2 \<le> r'\<^sup>2" by (rule power_mono)
  with inside have "(a1 - a0)\<^sup>2 + (d1 - d0)\<^sup>2 \<le> r'\<^sup>2" by (rule order_trans)
  moreover from r le have "0 \<le> r'" by simp
  ultimately show "contains_circle example_service p c r'"
    by (simp add: example_service_def p c)
qed

theorem candidate_filter_monotone_witness:
  "where_clause (default_thresholds\<lparr>minCount := 20\<rparr>) example_service example_object
     example_source \<and>
   set (query default_thresholds example_service [example_object] [example_source])
     \<subseteq> set (query (default_thresholds\<lparr>minCount := 20\<rparr>) example_service
              [example_object] [example_source])"
proof -
  have "where_clause default_thresholds example_service example_object example_source
          \<longrightarrow> where_clause (default_thresholds\<lparr>minCount := 20\<rparr>) example_service
                example_object example_source"
    and "set (query default_thresholds example_service [example_object] [example_source])
     \<subseteq> set (query (default_thresholds\<lparr>minCount := 20\<rparr>) example_service
              [example_object] [example_source])"
    using candidate_filter_monotone
            [where th = default_thresholds and th' = "default_thresholds\<lparr>minCount := 20\<rparr>"
               and svc = example_service and obj = example_object and src = example_source
               and DiaObject = "[example_object]" and DiaSource = "[example_source]"
               and DiaObject' = "[example_object]" and DiaSource' = "[example_source]",
             OF _ _ _ _ _ _ _ example_service_monotone]
    by (simp_all add: default_thresholds_def)
  with example_object_selected show ?thesis by blast
qed

subsection \<open>The epoch of the candidates' phases\<close>

text \<open>
  C9 asks for the epoch to be the minimum observation time of the series when none is
  supplied, and the known-star cell does that (\<open>known_star_epoch_is_min_g\<close>). The
  candidate cell does not: for an object observed at MJD 59000.25 and 59001.5 with best
  frequency 2 per day it folds from the epoch 0, which gives the phases \<open>[1 / 2, 0]\<close>,
  whereas the minimum time is 59000.25 and folding from it gives \<open>[0, 1 / 2]\<close>.
\<close>

theorem candidate_epoch_is_zero:
  "obj_phase [59000.25, 59001.5] 2 = Inr (0, [1 / 2, 0]) \<and>
   np_min [59000.25, 59001.5] = Inr 59000.25 \<and>
   map (phase_of 59000.25 (1 / 2)) [59000.25, 59001.5] = [0, 1 / 2]"
  by (simp add: obj_phase_def reciprocal_def phase_of_def np_mod_one frac_def np_min_def)


section \<open>Properties in binary64\<close>

subsection \<open>Rounding\<close>

text \<open>
  \<open>ilog2\<close> is the binary exponent: \<open>2 ^ ilog2 a \<le> a < 2 ^ (ilog2 a + 1)\<close>.
\<close>

lemma ilog2_bounds:
  assumes "0 < a"
  shows "2 powi (ilog2 a) \<le> a \<and> a < 2 powi (ilog2 a + 1)"
proof -
  obtain p q where pq: "quotient_of a = (p, q)" by (cases "quotient_of a") auto
  have q: "0 < q" using pq by (rule quotient_of_denom_pos)
  have a: "a = of_int p / of_int q" using pq by (rule quotient_of_div)
  have p: "0 < p" using assms q a by (simp add: zero_less_divide_iff)
  define k where "k = bitlen p - bitlen q"
  have bp: "1 \<le> bitlen p" and bq: "1 \<le> bitlen q"
    using p q bitlen_eq_zero_iff [of p] bitlen_eq_zero_iff [of q] bitlen_nonneg [of p]
      bitlen_nonneg [of q] by linarith+
  from bitlen_bounds [OF p] have "(2::int) ^ nat (bitlen p - 1) \<le> p" "p < 2 ^ nat (bitlen p)"
    by simp_all
  then have "(of_int ((2::int) ^ nat (bitlen p - 1)) :: rat) \<le> of_int p"
    and "(of_int p :: rat) < of_int (2 ^ nat (bitlen p))"
    by (simp_all only: of_int_le_iff of_int_less_iff)
  then have plo: "(2::rat) powi (bitlen p - 1) \<le> of_int p"
    and phi: "(of_int p :: rat) < 2 powi bitlen p"
    using bp by (simp_all add: power_int_def)
  from bitlen_bounds [OF q] have "(2::int) ^ nat (bitlen q - 1) \<le> q" "q < 2 ^ nat (bitlen q)"
    by simp_all
  then have "(of_int ((2::int) ^ nat (bitlen q - 1)) :: rat) \<le> of_int q"
    and "(of_int q :: rat) < of_int (2 ^ nat (bitlen q))"
    by (simp_all only: of_int_le_iff of_int_less_iff)
  then have qlo: "(2::rat) powi (bitlen q - 1) \<le> of_int q"
    and qhi: "(of_int q :: rat) < 2 powi bitlen q"
    using bq by (simp_all add: power_int_def)
  have qpos: "(0::rat) < of_int q" using q by simp
  have ppos: "(0::rat) < of_int p" using p by simp
  have upper: "a < 2 powi (k + 1)"
  proof -
    have "of_int p < (2::rat) powi (k + 1) * 2 powi (bitlen q - 1)"
      using phi by (simp add: k_def flip: power_int_add)
    also have "\<dots> \<le> 2 powi (k + 1) * of_int q"
      using qlo by (simp add: mult_left_mono)
    finally show ?thesis using qpos by (simp add: a pos_divide_less_eq)
  qed
  have lower: "2 powi (k - 1) \<le> a"
  proof -
    have "(2::rat) powi (k - 1) * of_int q \<le> 2 powi (k - 1) * 2 powi bitlen q"
      using qhi by (simp add: mult_left_mono)
    also have "\<dots> = 2 powi (bitlen p - 1)"
      by (simp add: k_def flip: power_int_add)
    also have "\<dots> \<le> of_int p" by (rule plo)
    finally show ?thesis using qpos by (simp add: a pos_le_divide_eq)
  qed
  show ?thesis
  proof (cases "2 powi k \<le> a")
    case True
    then have "ilog2 a = k" by (simp add: ilog2_def pq k_def)
    with True upper show ?thesis by simp
  next
    case False
    then have "ilog2 a = k - 1" by (simp add: ilog2_def pq k_def)
    with False lower show ?thesis by simp
  qed
qed

lemma pow2_less_imp_less:
  assumes "(2::rat) powi m < 2 powi n"
  shows "m < n"
proof (rule ccontr)
  assume "\<not> m < n"
  then have "n \<le> m" by simp
  then have "(2::rat) powi n \<le> 2 powi m" by (rule power_int_increasing) simp
  with assms show False by simp
qed

lemma ilog2_eqI:
  assumes "2 powi e \<le> a" "a < 2 powi (e + 1)"
  shows "ilog2 a = e"
proof -
  have pos: "0 < a" using assms(1) by (meson less_le_trans zero_less_numeral zero_less_power_int)
  from ilog2_bounds [OF pos] have b: "2 powi (ilog2 a) \<le> a" "a < 2 powi (ilog2 a + 1)"
    by simp_all
  have "(2::rat) powi e < 2 powi (ilog2 a + 1)" using assms(1) b(2) by simp
  then have 1: "e < ilog2 a + 1" by (rule pow2_less_imp_less)
  have "(2::rat) powi (ilog2 a) < 2 powi (e + 1)" using assms(2) b(1) by simp
  then have 2: "ilog2 a < e + 1" by (rule pow2_less_imp_less)
  from 1 2 show ?thesis by simp
qed

lemma round_half_even_bounds:
  "\<lfloor>z\<rfloor> \<le> round_half_even z \<and> round_half_even z \<le> \<lfloor>z\<rfloor> + 1"
  by (simp add: round_half_even_def Let_def)

lemma round_half_even_nonneg:
  assumes "0 \<le> z"
  shows "0 \<le> round_half_even z"
proof -
  have "0 \<le> \<lfloor>z\<rfloor>" using assms by simp
  with round_half_even_bounds [of z] show ?thesis by linarith
qed

lemma round_half_even_le:
  assumes "z \<le> of_int n"
  shows "round_half_even z \<le> n"
proof (cases "z = of_int n")
  case True
  then show ?thesis by (simp add: round_half_even_def)
next
  case False
  with assms have "z < of_int n" by simp
  then have "\<lfloor>z\<rfloor> < n" by (simp add: floor_less_iff)
  with round_half_even_bounds [of z] show ?thesis by linarith
qed

lemma round_half_even_less:
  assumes "z < of_int n - 1 / 2"
  shows "round_half_even z \<le> n - 1"
proof -
  have "z < of_int n" using assms by simp
  then have fl: "\<lfloor>z\<rfloor> \<le> n - 1" by (simp add: floor_less_iff)
  show ?thesis
  proof (cases "\<lfloor>z\<rfloor> = n - 1")
    case True
    then have "z - of_int \<lfloor>z\<rfloor> < 1 / 2" using assms by simp
    then have "round_half_even z = \<lfloor>z\<rfloor>" by (simp add: round_half_even_def Let_def)
    with True show ?thesis by simp
  next
    case False
    with fl round_half_even_bounds [of z] show ?thesis by linarith
  qed
qed

lemma round_half_even_eqI:
  assumes "\<bar>z - of_int n\<bar> < 1 / 2"
  shows "round_half_even z = n"
proof -
  from assms have lo: "of_int n - 1 / 2 < z" and hi: "z < of_int n + 1 / 2" by linarith+
  show ?thesis
  proof (cases "of_int n \<le> z")
    case True
    then have "\<lfloor>z\<rfloor> = n" using hi by (intro floor_unique) simp_all
    then show ?thesis using hi by (simp add: round_half_even_def Let_def)
  next
    case False
    then have "\<lfloor>z\<rfloor> = n - 1" using lo by (intro floor_unique) simp_all
    then show ?thesis using lo by (simp add: round_half_even_def Let_def)
  qed
qed

lemma round64_at:
  assumes "2 powi e \<le> \<bar>x\<bar>" "\<bar>x\<bar> < 2 powi (e + 1)" "- 1022 \<le> e"
  shows "round64 x =
     (let u = 2 powi (e - 52); y = of_int (round_half_even (\<bar>x\<bar> / u)) * u
      in if 2 powi 1024 \<le> y then (if 0 < x then PosInf else NegInf)
         else Finite (if 0 < x then y else - y))"
proof -
  have "(0::rat) < 2 powi e" by simp
  then have "0 < \<bar>x\<bar>" using assms(1) by (rule less_le_trans)
  then have nz: "x \<noteq> 0" by simp
  have "ilog2 \<bar>x\<bar> = e" using assms(1,2) by (rule ilog2_eqI)
  with assms(3) have mx: "max (ilog2 \<bar>x\<bar>) (- 1022) = e" by simp
  show ?thesis unfolding round64_def Let_def mx using nz by (simp only: if_False)
qed

text \<open>
  The value of \<open>round64\<close> at a given rational, from its exponent \<open>e\<close> and the significand \<open>n\<close>
  nearest to it.
\<close>

lemma round64_eval:
  assumes "2 powi e \<le> \<bar>x\<bar>" "\<bar>x\<bar> < 2 powi (e + 1)" "- 1022 \<le> e"
    and "\<bar>\<bar>x\<bar> / 2 powi (e - 52) - of_int n\<bar> < 1 / 2"
    and "of_int n * 2 powi (e - 52) < (2::rat) powi 1024"
  shows "round64 x =
           Finite (if 0 < x then of_int n * 2 powi (e - 52) else - (of_int n * 2 powi (e - 52)))"
proof -
  have r: "round_half_even (\<bar>x\<bar> / 2 powi (e - 52)) = n"
    using assms(4) by (rule round_half_even_eqI)
  have no: "\<not> 2 powi 1024 \<le> of_int n * (2::rat) powi (e - 52)"
    using assms(5) by (simp only: not_le)
  show ?thesis
    unfolding round64_at [OF assms(1-3)] Let_def r using no by (simp only: if_False)
qed

text \<open>
  Rounding a number of the open unit interval gives a number of the closed one: it can
  round up to 1, but only from \<open>1 - 2\<^sup>-\<^sup>5\<^sup>4\<close> on.
\<close>

lemma round64_unit:
  assumes "0 < y" "y < 1"
  shows "\<exists>v. round64 y = Finite v \<and> 0 \<le> v \<and> v \<le> 1 \<and> (y < 1 - 1 / 2 ^ 54 \<longrightarrow> v < 1)"
proof -
  define e where "e = max (ilog2 y) (- 1022)"
  define u :: rat where "u = 2 powi (e - 52)"
  define n where "n = round_half_even (y / u)"
  define v where "v = of_int n * u"
  from ilog2_bounds [OF assms(1)]
  have lo: "2 powi (ilog2 y) \<le> y" and hi: "y < 2 powi (ilog2 y + 1)" by simp_all
  have "(2::rat) powi (ilog2 y) < 2 powi 0" using lo assms(2) by simp
  then have neg: "ilog2 y < 0" by (rule pow2_less_imp_less)
  have e_hi: "e \<le> - 1" and e_lo: "- 1022 \<le> e" and e_ge: "ilog2 y \<le> e"
    using neg by (simp_all add: e_def)
  have upos: "0 < u" by (simp add: u_def)
  have "(2::rat) powi (ilog2 y + 1) \<le> 2 powi (e + 1)"
    using e_ge by (intro power_int_increasing) simp_all
  with hi have yhi: "y < 2 powi (e + 1)" by simp
  have e1: "e + 1 = 53 + (e - 52)" by simp
  have "(2::rat) powi (e + 1) = 2 powi 53 * 2 powi (e - 52)"
    by (subst e1, rule power_int_add) simp
  then have split: "(2::rat) powi (e + 1) = of_int (2 ^ 53) * u"
    by (simp add: u_def)
  have z_hi: "y / u < of_int (2 ^ 53)"
    using yhi upos by (simp only: split pos_divide_less_eq)
  have z_lo: "0 \<le> y / u" using assms(1) upos by simp
  have n_lo: "0 \<le> n" unfolding n_def using z_lo by (rule round_half_even_nonneg)
  have n_hi: "n \<le> 2 ^ 53" unfolding n_def using z_hi by (intro round_half_even_le) simp
  have v_lo: "0 \<le> v" using n_lo upos by (simp add: v_def)
  have "v \<le> of_int (2 ^ 53) * u"
    unfolding v_def using n_hi upos by (intro mult_right_mono) (simp_all flip: of_int_le_iff)
  then have v_e: "v \<le> 2 powi (e + 1)" by (simp only: split)
  have "(2::rat) powi (e + 1) \<le> 2 powi 0"
    using e_hi by (intro power_int_increasing) simp_all
  with v_e have v_hi: "v \<le> 1" by simp
  have "(1::rat) < 2 powi 1024" by simp
  with v_hi have no_ovf: "\<not> 2 powi 1024 \<le> v" by simp
  have nz: "y \<noteq> 0" using assms(1) by simp
  have r: "round64 y = Finite v"
    using nz assms(1) no_ovf
    by (simp add: round64_def Let_def e_def [symmetric] u_def [symmetric] n_def [symmetric]
          v_def [symmetric])
  have strict: "v < 1" if y: "y < 1 - 1 / 2 ^ 54"
  proof (cases "e = - 1")
    case True
    then have u: "u = 1 / 2 ^ 53" by (simp add: u_def power_int_minus_divide)
    have "y / u < of_int (2 ^ 53) - 1 / 2" using y by (simp add: u)
    then have "n \<le> 2 ^ 53 - 1" unfolding n_def by (rule round_half_even_less)
    then have "(of_int n :: rat) \<le> 2 ^ 53 - 1" by (simp flip: of_int_le_iff)
    then show ?thesis by (simp add: v_def u)
  next
    case False
    with e_hi have "e + 1 \<le> - 1" by simp
    then have "(2::rat) powi (e + 1) \<le> 2 powi (- 1)"
      by (intro power_int_increasing) simp_all
    with v_e have "v \<le> 1 / 2" by (simp add: power_int_minus_divide)
    then show ?thesis by simp
  qed
  from r v_lo v_hi strict show ?thesis by blast
qed

text \<open>
  Floors of rational literals, and the roundings the examples below need.
\<close>

lemma floor_rat_numeral [simp]:
  "\<lfloor>numeral a / numeral b :: rat\<rfloor> = numeral a div numeral b"
  using floor_divide_of_int_eq [of "numeral a" "numeral b", where ?'a = rat] by simp

lemma floor_rat_minus_numeral [simp]:
  "\<lfloor>- (numeral a / numeral b) :: rat\<rfloor> = - numeral a div numeral b"
  using floor_divide_of_int_eq [of "- numeral a" "numeral b", where ?'a = rat] by simp

lemma floor_rat_one_numeral [simp]:
  "\<lfloor>1 / numeral b :: rat\<rfloor> = 1 div numeral b"
  using floor_divide_of_int_eq [of 1 "numeral b", where ?'a = rat] by simp

lemma floor_rat_minus_one_numeral [simp]:
  "\<lfloor>- (1 / numeral b) :: rat\<rfloor> = - 1 div numeral b"
  using floor_divide_of_int_eq [of "- 1" "numeral b", where ?'a = rat] by simp

lemma round64_one: "round64 1 = Finite 1"
  using round64_eval [of 0 1 "2 ^ 52"] by simp

lemma round64_4: "round64 4 = Finite 4"
  using round64_eval [of 2 4 "2 ^ 52"] by simp

lemma round64_half: "round64 (1 / 2) = Finite (1 / 2)"
  using round64_eval [of "- 1" "1 / 2" "2 ^ 52"] by simp

lemma round64_quarter: "round64 (1 / 4) = Finite (1 / 4)"
  using round64_eval [of "- 2" "1 / 4" "2 ^ 52"] by simp

lemma round64_3_4: "round64 (3 / 4) = Finite (3 / 4)"
  using round64_eval [of "- 1" "3 / 4" "3 * 2 ^ 51"] by simp

lemma round64_3_2: "round64 (3 / 2) = Finite (3 / 2)"
  using round64_eval [of 0 "3 / 2" "3 * 2 ^ 51"] by simp

lemma round64_m3_4: "round64 (- (3 / 4)) = Finite (- (3 / 4))"
  using round64_eval [of "- 1" "- (3 / 4)" "3 * 2 ^ 51"] by simp

lemma round64_m3_2: "round64 (- (3 / 2)) = Finite (- (3 / 2))"
  using round64_eval [of 0 "- (3 / 2)" "3 * 2 ^ 51"] by simp

lemma round64_tiny: "round64 (- (1 / 2 ^ 60)) = Finite (- (1 / 2 ^ 60))"
  using round64_eval [of "- 60" "- (1 / 2 ^ 60)" "2 ^ 52"] by simp

lemma round64_below_one: "round64 (1 - 1 / 2 ^ 60) = Finite 1"
  using round64_eval [of "- 1" "1 - 1 / 2 ^ 60" "2 ^ 53"] by simp

lemma round64_fifth: "round64 (1 / 5) = Finite (3602879701896397 / 18014398509481984)"
  using round64_eval [of "- 3" "1 / 5" 7205759403792794] by simp

lemma round64_16_5: "round64 (16 / 5) = Finite (3602879701896397 / 1125899906842624)"
  using round64_eval [of "1" "16 / 5" 7205759403792794] by simp

lemma round64_mjd_a: "round64 (236001 / 4) = Finite (236001 / 4)"
  using round64_eval [of 15 "236001 / 4" "236001 * 2 ^ 35"] by simp

lemma round64_mjd_b: "round64 (236001 / 2) = Finite (236001 / 2)"
  using round64_eval [of 16 "236001 / 2" "236001 * 2 ^ 35"] by simp

lemma round64_mjd_c: "round64 (118003 / 2) = Finite (118003 / 2)"
  using round64_eval [of 15 "118003 / 2" "118003 * 2 ^ 36"] by simp

lemma round64_mjd_d: "round64 118003 = Finite 118003"
  using round64_eval [of 16 118003 "118003 * 2 ^ 36"] by simp

subsection \<open>The remainder by 1\<close>

text \<open>
  \<^verbatim>\<open>np.mod(q, 1.0)\<close> of a finite \<open>q\<close> is the fractional part of \<open>q\<close>, exact when \<open>q\<close> is not
  negative or is an integer, and rounded otherwise: for a negative \<open>q\<close> the remainder of
  \<^verbatim>\<open>fmod\<close> is \<open>frac q - 1\<close>, and adding 1 to it rounds.
\<close>

lemma np_mod_f64_one:
  "np_mod_f64 (Finite q) (Finite 1) =
     (if q < 0 \<and> frac q \<noteq> 0 then round64 (frac q) else Finite (frac q))"
proof (cases "0 \<le> q")
  case True
  then have "q - of_int (trunc q) = frac q" by (simp add: trunc_def frac_def)
  with True show ?thesis
    by (simp add: np_mod_f64_def Let_def frac_lt_1 not_less)
next
  case neg: False
  show ?thesis
  proof (cases "frac q = 0")
    case True
    then have "q \<in> \<int>" by (simp add: frac_eq_0_iff)
    then have "of_int \<lceil>q\<rceil> = q" by (simp add: Ints_cases ceiling_of_int)
    with neg True show ?thesis by (simp add: np_mod_f64_def Let_def trunc_def)
  next
    case False
    then have nint: "q \<notin> \<int>" by (simp add: frac_eq_0_iff)
    then have "q \<noteq> of_int \<lfloor>q\<rfloor>" by (metis Ints_of_int)
    then have "\<lceil>q\<rceil> = \<lfloor>q\<rfloor> + 1" by (simp add: ceiling_altdef)
    then have rem: "q - of_int (trunc q) = frac q - 1" using neg by (simp add: trunc_def frac_def)
    have "frac q - 1 < 0" using frac_lt_1 [of q] by simp
    moreover have "frac q - 1 \<noteq> 0" using frac_lt_1 [of q] by simp
    ultimately show ?thesis using neg False
      by (simp add: np_mod_f64_def Let_def rem)
  qed
qed

lemma np_mod_f64_one_bounds:
  "\<exists>v. np_mod_f64 (Finite q) (Finite 1) = Finite v \<and> 0 \<le> v \<and> v \<le> 1 \<and>
       (0 \<le> q \<or> frac q < 1 - 1 / 2 ^ 54 \<longrightarrow> v < 1)"
proof (cases "q < 0 \<and> frac q \<noteq> 0")
  case True
  then have "0 < frac q" using frac_ge_0 [of q] by simp
  from round64_unit [OF this frac_lt_1]
  show ?thesis using True by (auto simp: np_mod_f64_one)
next
  case False
  have "0 \<le> frac q" "frac q < 1" by (simp_all add: frac_lt_1)
  then show ?thesis using False by (auto simp: np_mod_f64_one)
qed

lemma np_mod_f64_not_finite:
  "a = PosInf \<or> a = NegInf \<or> a = NaN \<Longrightarrow> np_mod_f64 a (Finite 1) = NaN"
  by (auto simp: np_mod_f64_def)

subsection \<open>Phase folding\<close>

text \<open>
  C1, as the notebook computes it. The phase \<^verbatim>\<open>np.mod((t - t0) / P, 1.0)\<close> is never
  negative, for every period, epoch and time, also \<open>t < t0\<close>, but it is not always below
  1. Whenever the quotient \<open>(t - t0) / P\<close> computed in \<^verbatim>\<open>float64\<close> is a finite number \<open>q\<close>, the
  phase is a finite number \<open>v\<close> with \<open>0 \<le> v \<le> 1\<close>, and \<open>v < 1\<close> when \<open>q\<close> is not negative or its
  fractional part is below \<open>1 - 2\<^sup>-\<^sup>5\<^sup>4\<close>; a negative quotient whose fractional part is
  closer to 1 can give the phase exactly 1.0. When the quotient is not finite (a zero
  period, an overflow, a \<^verbatim>\<open>nan\<close> input) the phase is \<^verbatim>\<open>nan\<close>.
\<close>

theorem phase_f64_bounds:
  "(div_f64 (sub_f64 t t0) P = Finite q \<longrightarrow>
      (\<exists>v. phase_of_f64 t0 P t = Finite v \<and> 0 \<le> v \<and> v \<le> 1 \<and>
           (0 \<le> q \<or> frac q < 1 - 1 / 2 ^ 54 \<longrightarrow> v < 1))) \<and>
   ((\<forall>q. div_f64 (sub_f64 t t0) P \<noteq> Finite q) \<longrightarrow> phase_of_f64 t0 P t = NaN)"
proof (intro conjI impI)
  assume "div_f64 (sub_f64 t t0) P = Finite q"
  then show "\<exists>v. phase_of_f64 t0 P t = Finite v \<and> 0 \<le> v \<and> v \<le> 1 \<and>
           (0 \<le> q \<or> frac q < 1 - 1 / 2 ^ 54 \<longrightarrow> v < 1)"
    using np_mod_f64_one_bounds [of q] by (simp add: phase_of_f64_def)
next
  assume "\<forall>q. div_f64 (sub_f64 t t0) P \<noteq> Finite q"
  then have "div_f64 (sub_f64 t t0) P = PosInf \<or> div_f64 (sub_f64 t t0) P = NegInf
      \<or> div_f64 (sub_f64 t t0) P = NaN"
    by (cases "div_f64 (sub_f64 t t0) P") simp_all
  then show "phase_of_f64 t0 P t = NaN"
    unfolding phase_of_f64_def by (rule np_mod_f64_not_finite)
qed

theorem phase_f64_bounds_witness:
  "(\<exists>v. phase_of_f64 (Finite 10) (Finite (1 / 2)) (Finite (37 / 4)) = Finite v \<and>
        0 \<le> v \<and> v < 1) \<and>
   phase_of_f64 (Finite 0) (Finite 0) (Finite 1) = NaN"
proof -
  have q: "div_f64 (sub_f64 (Finite (37 / 4)) (Finite 10)) (Finite (1 / 2)) = Finite (- (3 / 2))"
    by (simp add: round64_m3_4 round64_m3_2)
  have f: "frac (- (3 / 2) :: rat) < 1 - 1 / 2 ^ 54"
    by (simp add: frac_def)
  from phase_f64_bounds [of "Finite (37 / 4)" "Finite 10" "Finite (1 / 2)" "- (3 / 2)"] q f
  have 1: "\<exists>v. phase_of_f64 (Finite 10) (Finite (1 / 2)) (Finite (37 / 4)) = Finite v \<and>
        0 \<le> v \<and> v < 1" by blast
  have z: "\<forall>q. div_f64 (sub_f64 (Finite 1) (Finite 0)) (Finite 0) \<noteq> Finite q"
    by (simp add: round64_one)
  from phase_f64_bounds [of "Finite 1" "Finite 0" "Finite 0"] z
  have 2: "phase_of_f64 (Finite 0) (Finite 0) (Finite 1) = NaN" by blast
  from 1 2 show ?thesis by blast
qed

text \<open>
  C1 as stated fails: the candidate cell, for an object with best frequency 1 per day
  (period 1 day, epoch 0) and an observation at the time \<open>- 2\<^sup>-\<^sup>6\<^sup>0\<close>, before the epoch,
  computes the phase 1.0, which is not below 1: the remainder of \<^verbatim>\<open>fmod\<close> is \<open>- 2\<^sup>-\<^sup>6\<^sup>0\<close>, and
  adding 1 to it rounds to 1.
\<close>

theorem phase_one_counterexample:
  "obj_phase_f64 [Finite (- (1 / 2 ^ 60))] (Finite 1) = (Finite 0, [Finite 1])"
proof -
  have p: "div_f64 (Finite 1) (Finite 1) = Finite 1"
    using round64_one by simp
  have s: "sub_f64 (Finite (- (1 / 2 ^ 60))) (Finite 0) = Finite (- (1 / 2 ^ 60))"
    using round64_tiny by simp
  have d: "div_f64 (Finite (- (1 / 2 ^ 60))) (Finite 1) = Finite (- (1 / 2 ^ 60))"
    using round64_tiny by simp
  have m: "np_mod_f64 (Finite (- (1 / 2 ^ 60))) (Finite 1) = Finite 1"
    using round64_below_one by (simp add: np_mod_f64_one frac_def)
  show ?thesis
    unfolding obj_phase_f64_def phase_of_f64_def Let_def p list.map s d m ..
qed

text \<open>
  C6, as the notebook computes it. Folding \<open>t\<close> and \<open>t + k * P\<close> gives the identical phase
  whenever no operation of the two computations rounds: the two subtractions, the two
  divisions, and the addition of 1 that folds a negative quotient are exact.
\<close>

theorem phase_f64_periodic_when_exact:
  assumes "P \<noteq> 0"
    and "round64 (t - t0) = Finite (t - t0)"
    and "round64 ((t - t0) / P) = Finite ((t - t0) / P)"
    and "round64 (t + of_int k * P - t0) = Finite (t + of_int k * P - t0)"
    and "round64 ((t + of_int k * P - t0) / P) = Finite ((t + of_int k * P - t0) / P)"
    and "round64 (frac ((t - t0) / P)) = Finite (frac ((t - t0) / P))"
  shows "phase_of_f64 (Finite t0) (Finite P) (Finite (t + of_int k * P))
           = phase_of_f64 (Finite t0) (Finite P) (Finite t)"
proof -
  have q': "(t + of_int k * P - t0) / P = (t - t0) / P + of_int k"
    using assms(1) by (simp add: field_simps)
  have fr: "frac ((t + of_int k * P - t0) / P) = frac ((t - t0) / P)"
    by (simp add: q')
  have 1: "phase_of_f64 (Finite t0) (Finite P) (Finite t) = Finite (frac ((t - t0) / P))"
    using assms(1,2,3,6) by (simp add: phase_of_f64_def np_mod_f64_one)
  have 2: "phase_of_f64 (Finite t0) (Finite P) (Finite (t + of_int k * P))
             = Finite (frac ((t - t0) / P))"
    using assms(1,4,5,6) by (simp add: phase_of_f64_def np_mod_f64_one fr)
  from 1 2 show ?thesis by simp
qed

theorem phase_f64_periodic_when_exact_witness:
  "phase_of_f64 (Finite 10) (Finite (1 / 2)) (Finite (37 / 4 + of_int 3 * (1 / 2)))
     = phase_of_f64 (Finite 10) (Finite (1 / 2)) (Finite (37 / 4))"
proof (rule phase_f64_periodic_when_exact)
  show "(1 / 2 :: rat) \<noteq> 0" by simp
  show "round64 (37 / 4 - 10) = Finite (37 / 4 - 10)" using round64_m3_4 by simp
  show "round64 ((37 / 4 - 10) / (1 / 2)) = Finite ((37 / 4 - 10) / (1 / 2))"
    using round64_m3_2 by simp
  show "round64 (37 / 4 + of_int 3 * (1 / 2) - 10) = Finite (37 / 4 + of_int 3 * (1 / 2) - 10)"
    using round64_3_4 by simp
  show "round64 ((37 / 4 + of_int 3 * (1 / 2) - 10) / (1 / 2))
          = Finite ((37 / 4 + of_int 3 * (1 / 2) - 10) / (1 / 2))"
    using round64_3_2 by simp
  show "round64 (frac ((37 / 4 - 10) / (1 / 2))) = Finite (frac ((37 / 4 - 10) / (1 / 2)))"
    using round64_half by (simp add: frac_def)
qed

text \<open>
  C6 as stated fails: with the epoch 0 and the period 1.25 days, the time 0.25 folds to
  0.2 (the \<^verbatim>\<open>float64\<close> nearest to \<open>1 / 5\<close>) and the time \<open>0.25 + 3 * 1.25 = 4.0\<close> folds to
  0.20000000000000018: the quotient \<open>4.0 / 1.25\<close> is rounded to the \<^verbatim>\<open>float64\<close> nearest to
  \<open>16 / 5\<close>, whose spacing is 16 times that of the numbers near \<open>1 / 5\<close>.
\<close>

theorem phase_rounding_counterexample:
  "phase_of_f64 (Finite 0) (Finite (5 / 4)) (Finite (1 / 4))
     = Finite (3602879701896397 / 18014398509481984) \<and>
   phase_of_f64 (Finite 0) (Finite (5 / 4)) (Finite (1 / 4 + of_int 3 * (5 / 4)))
     = Finite (225179981368525 / 1125899906842624)"
proof -
  have 1: "phase_of_f64 (Finite 0) (Finite (5 / 4)) (Finite (1 / 4))
             = Finite (3602879701896397 / 18014398509481984)"
    by (simp add: phase_of_f64_def round64_quarter round64_fifth np_mod_f64_one frac_def)
  have 2: "phase_of_f64 (Finite 0) (Finite (5 / 4)) (Finite (1 / 4 + of_int 3 * (5 / 4)))
             = Finite (225179981368525 / 1125899906842624)"
    by (simp add: phase_of_f64_def round64_4 round64_16_5 np_mod_f64_one frac_def)
  from 1 2 show ?thesis by simp
qed

text \<open>
  Both cells apply \<open>phase_of_f64\<close> to every entry of their arrays, so every phase they
  produce is \<^verbatim>\<open>nan\<close> or a number of the closed unit interval.
\<close>

lemma phase_of_f64_range:
  "phase_of_f64 t0 P t = NaN \<or> (\<exists>v. phase_of_f64 t0 P t = Finite v \<and> 0 \<le> v \<and> v \<le> 1)"
proof (cases "div_f64 (sub_f64 t t0) P")
  case (Finite q)
  with np_mod_f64_one_bounds [of q] show ?thesis by (auto simp: phase_of_f64_def)
qed (simp_all add: phase_of_f64_def np_mod_f64_not_finite)

lemma phase_loop_f64_result:
  assumes "\<forall>b\<in>set ks. md b = Some (T b)"
  shows "phase_loop_f64 md t0 bp ks ph =
           Inr (\<lambda>b. if b \<in> set ks then Some (map (phase_of_f64 t0 bp) (T b)) else ph b)"
  using assms
proof (induction ks arbitrary: ph)
  case Nil
  then show ?case by simp
next
  case (Cons k ks)
  then show ?case by (auto simp: lookup_def fun_eq_iff)
qed

lemma known_star_phases_f64:
  assumes dom: "\<forall>b\<in>set plot_filter_labels. \<exists>t. mjd_days b = Some t"
    and g: "mjd_days ''g'' = Some g" "g \<noteq> []"
  shows "\<exists>ph. phase_f64 mjd_days bp = Inr ph \<and>
           (\<forall>b\<in>set plot_filter_labels. \<forall>xs. ph b = Some xs \<longrightarrow>
              (\<forall>x\<in>set xs. x = NaN \<or> (\<exists>v. x = Finite v \<and> 0 \<le> v \<and> v \<le> 1)))"
proof -
  have md: "\<forall>b\<in>set plot_filter_labels. mjd_days b = Some (the (mjd_days b))"
    using dom by auto
  from g(2) obtain t0 where t0: "np_min_f64 g = Inr t0"
    by (cases g) (simp_all add: np_min_f64_def)
  have "phase_f64 mjd_days bp =
      Inr (\<lambda>b. if b \<in> set plot_filter_labels
                then Some (map (phase_of_f64 t0 bp) (the (mjd_days b))) else None)"
    unfolding phase_f64_def
    using phase_loop_f64_result [where T = "\<lambda>b. the (mjd_days b)", OF md] g(1) t0
    by (simp add: lookup_def)
  then show ?thesis
    using phase_of_f64_range by auto
qed

lemma candidate_phases_f64:
  assumes "x \<in> set (snd (obj_phase_f64 obj_mjd_days LSfreq_i))"
  shows "x = NaN \<or> (\<exists>v. x = Finite v \<and> 0 \<le> v \<and> v \<le> 1)"
  using assms phase_of_f64_range by (auto simp: obj_phase_f64_def Let_def)

text \<open>
  The candidate cell on the object observed at MJD 59000.25 and 59001.5 with best
  frequency 2 per day: every operation is exact, and the phases folded from the epoch
  0 are \<open>[1 / 2, 0]\<close> in binary64 as well.
\<close>

lemma candidate_epoch_f64:
  "obj_phase_f64 [Finite 59000.25, Finite 59001.5] (Finite 2)
     = (Finite 0, [Finite (1 / 2), Finite 0])"
proof -
  have p: "div_f64 (Finite 1) (Finite 2) = Finite (1 / 2)"
    using round64_half by simp
  have 1: "phase_of_f64 (Finite 0) (Finite (1 / 2)) (Finite 59000.25) = Finite (1 / 2)"
    by (simp add: phase_of_f64_def round64_mjd_a round64_mjd_b np_mod_f64_one frac_def)
  have 2: "phase_of_f64 (Finite 0) (Finite (1 / 2)) (Finite 59001.5) = Finite 0"
    by (simp add: phase_of_f64_def round64_mjd_c round64_mjd_d np_mod_f64_one frac_def)
  show ?thesis
    unfolding obj_phase_f64_def Let_def p list.map 1 2 ..
qed

subsection \<open>The peak of a periodogram\<close>

lemma f64_not_le_iff: "\<not> isnan a \<Longrightarrow> \<not> isnan b \<Longrightarrow> \<not> f64_le a b \<longleftrightarrow> f64_lt b a"
  by (cases a; cases b) (auto simp: isnan_def)

lemma f64_le_refl: "\<not> isnan a \<Longrightarrow> f64_le a a"
  by (cases a) (auto simp: isnan_def)

lemma f64_lt_imp_le: "f64_lt a b \<Longrightarrow> f64_le a b"
  by (cases a; cases b) auto

lemma f64_le_lt_trans: "f64_le a b \<Longrightarrow> f64_lt b c \<Longrightarrow> f64_lt a c"
  by (cases a; cases b; cases c) auto

lemma f64_lt_irrefl: "\<not> f64_lt a a"
  by (cases a) auto

lemma f64_le_not_nan: "f64_le a b \<Longrightarrow> \<not> isnan a \<and> \<not> isnan b"
  by (cases a; cases b) (auto simp: isnan_def)

text \<open>
  The scan keeps this invariant: with \<open>pre\<close> the entries already read, none of them \<^verbatim>\<open>nan\<close>,
  \<open>mp\<close> is their maximum and \<open>mi\<close> its first position. It ends at the first \<^verbatim>\<open>nan\<close> if there is
  one, and at the first position of the maximum otherwise.
\<close>

lemma argmax_from_f64_inv:
  assumes "length pre = i" "mi < i" "pre ! mi = mp" "\<forall>x\<in>set pre. \<not> isnan x"
    "\<forall>j<i. f64_le (pre ! j) mp" "\<forall>j<mi. f64_lt (pre ! j) mp"
  shows "argmax_from_f64 xs i mp mi < length (pre @ xs) \<and>
         ((\<exists>x\<in>set xs. isnan x) \<longrightarrow>
            isnan ((pre @ xs) ! argmax_from_f64 xs i mp mi) \<and>
            (\<forall>j<argmax_from_f64 xs i mp mi. \<not> isnan ((pre @ xs) ! j))) \<and>
         ((\<forall>x\<in>set xs. \<not> isnan x) \<longrightarrow>
            (\<forall>j<length (pre @ xs).
                f64_le ((pre @ xs) ! j) ((pre @ xs) ! argmax_from_f64 xs i mp mi)) \<and>
            (\<forall>j<argmax_from_f64 xs i mp mi.
                f64_lt ((pre @ xs) ! j) ((pre @ xs) ! argmax_from_f64 xs i mp mi)))"
  using assms
proof (induction xs arbitrary: pre i mp mi)
  case Nil
  then show ?case by auto
next
  case (Cons x xs)
  have mpn: "\<not> isnan mp" using Cons.prems(2,3,4) Cons.prems(1) nth_mem by blast
  show ?case
  proof (cases "isnan x")
    case True
    then have nle: "\<not> f64_le x mp" using f64_le_not_nan by blast
    have r: "argmax_from_f64 (x # xs) i mp mi = i" using True nle by simp
    have at: "(pre @ x # xs) ! i = x" using Cons.prems(1) by (simp add: nth_append)
    have before: "\<forall>j<i. \<not> isnan ((pre @ x # xs) ! j)"
      using Cons.prems(1,4) by (auto simp: nth_append)
    from True r at before Cons.prems(1) show ?thesis by auto
  next
    case xn: False
    show ?thesis
    proof (cases "f64_le x mp")
      case le: True
      have ih: "argmax_from_f64 xs (Suc i) mp mi < length ((pre @ [x]) @ xs) \<and>
         ((\<exists>x\<in>set xs. isnan x) \<longrightarrow>
            isnan (((pre @ [x]) @ xs) ! argmax_from_f64 xs (Suc i) mp mi) \<and>
            (\<forall>j<argmax_from_f64 xs (Suc i) mp mi. \<not> isnan (((pre @ [x]) @ xs) ! j))) \<and>
         ((\<forall>x\<in>set xs. \<not> isnan x) \<longrightarrow>
            (\<forall>j<length ((pre @ [x]) @ xs).
                f64_le (((pre @ [x]) @ xs) ! j) (((pre @ [x]) @ xs) ! argmax_from_f64 xs (Suc i) mp mi)) \<and>
            (\<forall>j<argmax_from_f64 xs (Suc i) mp mi.
                f64_lt (((pre @ [x]) @ xs) ! j) (((pre @ [x]) @ xs) ! argmax_from_f64 xs (Suc i) mp mi)))"
      proof (rule Cons.IH)
        show "length (pre @ [x]) = Suc i" using Cons.prems by simp
        show "mi < Suc i" using Cons.prems by simp
        show "(pre @ [x]) ! mi = mp" using Cons.prems by (simp add: nth_append)
        show "\<forall>x\<in>set (pre @ [x]). \<not> isnan x" using Cons.prems xn by auto
        show "\<forall>j<Suc i. f64_le ((pre @ [x]) ! j) mp"
          using Cons.prems le by (auto simp: nth_append less_Suc_eq)
        show "\<forall>j<mi. f64_lt ((pre @ [x]) ! j) mp"
          using Cons.prems by (auto simp: nth_append)
      qed
      have r: "argmax_from_f64 (x # xs) i mp mi = argmax_from_f64 xs (Suc i) mp mi"
        using le by simp
      have ex: "(\<exists>y\<in>set (x # xs). isnan y) \<longleftrightarrow> (\<exists>y\<in>set xs. isnan y)" using xn by simp
      have al: "(\<forall>y\<in>set (x # xs). \<not> isnan y) \<longleftrightarrow> (\<forall>y\<in>set xs. \<not> isnan y)" using xn by simp
      from ih show ?thesis unfolding r ex al by simp
    next
      case nle: False
      then have gt: "f64_lt mp x" using xn mpn by (simp add: f64_not_le_iff)
      have ih: "argmax_from_f64 xs (Suc i) x i < length ((pre @ [x]) @ xs) \<and>
         ((\<exists>x\<in>set xs. isnan x) \<longrightarrow>
            isnan (((pre @ [x]) @ xs) ! argmax_from_f64 xs (Suc i) x i) \<and>
            (\<forall>j<argmax_from_f64 xs (Suc i) x i. \<not> isnan (((pre @ [x]) @ xs) ! j))) \<and>
         ((\<forall>x\<in>set xs. \<not> isnan x) \<longrightarrow>
            (\<forall>j<length ((pre @ [x]) @ xs).
                f64_le (((pre @ [x]) @ xs) ! j) (((pre @ [x]) @ xs) ! argmax_from_f64 xs (Suc i) x i)) \<and>
            (\<forall>j<argmax_from_f64 xs (Suc i) x i.
                f64_lt (((pre @ [x]) @ xs) ! j) (((pre @ [x]) @ xs) ! argmax_from_f64 xs (Suc i) x i)))"
      proof (rule Cons.IH)
        show "length (pre @ [x]) = Suc i" using Cons.prems by simp
        show "i < Suc i" by simp
        show "(pre @ [x]) ! i = x" using Cons.prems by (simp add: nth_append)
        show "\<forall>x\<in>set (pre @ [x]). \<not> isnan x" using Cons.prems xn by auto
        show "\<forall>j<Suc i. f64_le ((pre @ [x]) ! j) x"
        proof (intro allI impI)
          fix j assume "j < Suc i"
          then consider "j < i" | "j = i" by linarith
          then show "f64_le ((pre @ [x]) ! j) x"
          proof cases
            case 1
            then have "f64_le (pre ! j) mp" using Cons.prems(5) by simp
            then have "f64_lt (pre ! j) x" using gt by (rule f64_le_lt_trans)
            then show ?thesis using 1 Cons.prems(1) by (simp add: nth_append f64_lt_imp_le)
          next
            case 2
            then show ?thesis using Cons.prems(1) xn by (simp add: nth_append f64_le_refl)
          qed
        qed
        show "\<forall>j<i. f64_lt ((pre @ [x]) ! j) x"
        proof (intro allI impI)
          fix j assume j: "j < i"
          then have "f64_le (pre ! j) mp" using Cons.prems(5) by simp
          then have "f64_lt (pre ! j) x" using gt by (rule f64_le_lt_trans)
          then show "f64_lt ((pre @ [x]) ! j) x" using j Cons.prems(1) by (simp add: nth_append)
        qed
      qed
      have r: "argmax_from_f64 (x # xs) i mp mi = argmax_from_f64 xs (Suc i) x i"
        using nle xn by simp
      have ex: "(\<exists>y\<in>set (x # xs). isnan y) \<longleftrightarrow> (\<exists>y\<in>set xs. isnan y)" using xn by simp
      have al: "(\<forall>y\<in>set (x # xs). \<not> isnan y) \<longleftrightarrow> (\<forall>y\<in>set xs. \<not> isnan y)" using xn by simp
      from ih show ?thesis unfolding r ex al by simp
    qed
  qed
qed

lemma np_argmax_f64_spec:
  assumes "xs \<noteq> []"
  shows "\<exists>k. np_argmax_f64 xs = Inr k \<and> k < length xs \<and>
           ((\<exists>x\<in>set xs. isnan x) \<longrightarrow> isnan (xs ! k) \<and> (\<forall>j<k. \<not> isnan (xs ! j))) \<and>
           ((\<forall>x\<in>set xs. \<not> isnan x) \<longrightarrow>
              (\<forall>j<length xs. f64_le (xs ! j) (xs ! k)) \<and> (\<forall>j<k. f64_lt (xs ! j) (xs ! k)))"
proof -
  from assms obtain x rest where xs: "xs = x # rest" by (cases xs) auto
  show ?thesis
  proof (cases "isnan x")
    case True
    then show ?thesis by (auto simp: xs np_argmax_f64_def)
  next
    case False
    have inv: "argmax_from_f64 rest 1 x 0 < length ([x] @ rest) \<and>
         ((\<exists>y\<in>set rest. isnan y) \<longrightarrow>
            isnan (([x] @ rest) ! argmax_from_f64 rest 1 x 0) \<and>
            (\<forall>j<argmax_from_f64 rest 1 x 0. \<not> isnan (([x] @ rest) ! j))) \<and>
         ((\<forall>y\<in>set rest. \<not> isnan y) \<longrightarrow>
            (\<forall>j<length ([x] @ rest).
                f64_le (([x] @ rest) ! j) (([x] @ rest) ! argmax_from_f64 rest 1 x 0)) \<and>
            (\<forall>j<argmax_from_f64 rest 1 x 0.
                f64_lt (([x] @ rest) ! j) (([x] @ rest) ! argmax_from_f64 rest 1 x 0)))"
      by (rule argmax_from_f64_inv) (use False in \<open>auto simp: f64_le_refl\<close>)
    have ex: "(\<exists>y\<in>set (x # rest). isnan y) \<longleftrightarrow> (\<exists>y\<in>set rest. isnan y)" using False by simp
    have al: "(\<forall>y\<in>set (x # rest). \<not> isnan y) \<longleftrightarrow> (\<forall>y\<in>set rest. \<not> isnan y)" using False by simp
    have r: "np_argmax_f64 (x # rest) = Inr (argmax_from_f64 rest 1 x 0)"
      using False by (simp add: np_argmax_f64_def)
    from inv show ?thesis unfolding xs r ex al by simp
  qed
qed


lemma object_peak_f64_result:
  assumes "ls t y minfreq_f64 maxfreq_f64 = Inr (f, p)" "np_argmax_f64 p = Inr k" "k < length p"
    "length f = length p"
  shows "object_peak_f64 ls t y = Inr (p ! k, f ! k)"
  using assms by (simp add: object_peak_f64_def autopower_f64_def index_def)

text \<open>
  C7. When the maximum power is attained at more than one grid frequency, the period
  search selects the lowest such frequency. For a library periodogram with a strictly
  increasing frequency grid and as many (at least one) powers as frequencies, both the
  per-object search and the per-band loop return the frequency at one index \<open>k\<close>. When
  the powers are numbers, as the powers of a periodogram are, \<open>k\<close> is an index of maximal
  power and every other index of equal power has a strictly higher frequency. When
  some power is \<^verbatim>\<open>nan\<close>, \<open>k\<close> is the index of the first \<^verbatim>\<open>nan\<close> instead.
\<close>

theorem argmax_f64_ties_lowest_frequency:
  assumes lib: "ls t y minfreq_f64 maxfreq_f64 = Inr (f, p)"
    and ne: "p \<noteq> []" and len: "length f = length p"
    and grid: "sorted_wrt f64_lt f"
  shows "\<exists>k<length p.
           object_peak_f64 ls t y = Inr (p ! k, f ! k) \<and>
           peak_loop_f64 (Map.empty(b \<mapsto> f)) (Map.empty(b \<mapsto> p)) [b] [] = Inr [f ! k] \<and>
           ((\<forall>x\<in>set p. \<not> isnan x) \<longrightarrow>
              (\<forall>j<length p. f64_le (p ! j) (p ! k)) \<and>
              (\<forall>j<length p. p ! j = p ! k \<and> j \<noteq> k \<longrightarrow> f64_lt (f ! k) (f ! j))) \<and>
           ((\<exists>x\<in>set p. isnan x) \<longrightarrow> isnan (p ! k) \<and> (\<forall>j<k. \<not> isnan (p ! j)))"
proof -
  from np_argmax_f64_spec [OF ne] obtain k where k: "np_argmax_f64 p = Inr k" "k < length p"
    and nan: "(\<exists>x\<in>set p. isnan x) \<longrightarrow> isnan (p ! k) \<and> (\<forall>j<k. \<not> isnan (p ! j))"
    and fin: "(\<forall>x\<in>set p. \<not> isnan x) \<longrightarrow>
                (\<forall>j<length p. f64_le (p ! j) (p ! k)) \<and> (\<forall>j<k. f64_lt (p ! j) (p ! k))"
    by blast
  have op: "object_peak_f64 ls t y = Inr (p ! k, f ! k)"
    using lib k len by (rule object_peak_f64_result)
  have pl: "peak_loop_f64 (Map.empty(b \<mapsto> f)) (Map.empty(b \<mapsto> p)) [b] [] = Inr [f ! k]"
    using k len by (simp add: lookup_def index_def)
  have low: "\<forall>j<length p. p ! j = p ! k \<and> j \<noteq> k \<longrightarrow> f64_lt (f ! k) (f ! j)"
    if nn: "\<forall>x\<in>set p. \<not> isnan x"
  proof (intro allI impI)
    fix j assume j: "j < length p" and tie: "p ! j = p ! k \<and> j \<noteq> k"
    from fin nn have first: "\<forall>j<k. f64_lt (p ! j) (p ! k)" by simp
    have "\<not> j < k"
    proof
      assume "j < k"
      with first have "f64_lt (p ! j) (p ! k)" by simp
      with tie show False by (simp add: f64_lt_irrefl)
    qed
    with tie have "k < j" by simp
    with grid j len show "f64_lt (f ! k) (f ! j)" by (simp add: sorted_wrt_nth_less)
  qed
  from k(2) op pl nan fin low show ?thesis by blast
qed

theorem argmax_f64_ties_lowest_frequency_witness:
  "object_peak_f64 example_library_f64 [Finite 59000.5, Finite 59002.75]
      [Finite 18.25, Finite 18.5] = Inr (Finite 2, Finite 2) \<and>
   object_peak_f64 (\<lambda>t y lo hi. Inr ([Finite 1, Finite 2, Finite 4], [Finite 1, NaN, Finite 3]))
      [Finite 59000.5, Finite 59002.75] [Finite 18.25, Finite 18.5] = Inr (NaN, Finite 2)"
proof -
  let ?t = "[Finite 59000.5, Finite 59002.75]"
  let ?y = "[Finite 18.25, Finite 18.5]"
  let ?f = "[Finite 1, Finite 2, Finite 4]"
  let ?p = "[Finite 1, Finite 2, Finite 2]"
  let ?n = "[Finite 1, NaN, Finite 3]"
  let ?ls = "\<lambda>(t::f64 list) (y::f64 list) (lo::f64) (hi::f64).
               (Inr (?f, ?n) :: string + (f64 list \<times> f64 list))"
  have lib: "example_library_f64 ?t ?y minfreq_f64 maxfreq_f64 = Inr (?f, ?p)"
    by (simp add: example_library_f64_def)
  have ne: "?p \<noteq> []" by simp
  have len: "length ?f = length ?p" by simp
  have grid: "sorted_wrt f64_lt ?f" by simp
  have nn: "\<forall>x\<in>set ?p. \<not> isnan x" by (simp add: isnan_def)
  from argmax_f64_ties_lowest_frequency
         [where ls = example_library_f64 and t = ?t and y = ?y
            and f = ?f and p = ?p and b = "''g''",
          OF lib ne len grid]
  obtain k where k: "k < length ?p"
    and op: "object_peak_f64 example_library_f64 ?t ?y = Inr (?p ! k, ?f ! k)"
    and fin: "(\<forall>x\<in>set ?p. \<not> isnan x) \<longrightarrow>
              (\<forall>j<length ?p. f64_le (?p ! j) (?p ! k)) \<and>
              (\<forall>j<length ?p. ?p ! j = ?p ! k \<and> j \<noteq> k \<longrightarrow> f64_lt (?f ! k) (?f ! j))"
    by blast
  from fin nn have mx: "\<forall>j<length ?p. f64_le (?p ! j) (?p ! k)"
    and low: "\<forall>j<length ?p. ?p ! j = ?p ! k \<and> j \<noteq> k \<longrightarrow> f64_lt (?f ! k) (?f ! j)"
    by blast+
  from k have cases: "k = 0 \<or> k = 1 \<or> k = 2" by auto
  from mx [rule_format, of 1] have m1: "f64_le (?p ! 1) (?p ! k)" by simp
  from low [rule_format, of 1] have l1: "?p ! 1 = ?p ! k \<and> 1 \<noteq> k \<longrightarrow> f64_lt (?f ! k) (?f ! 1)"
    by simp
  from cases m1 l1 have "k = 1" by auto
  with op have 1: "object_peak_f64 example_library_f64 ?t ?y = Inr (Finite 2, Finite 2)"
    by simp
  have lib': "?ls ?t ?y minfreq_f64 maxfreq_f64 = Inr (?f, ?n)" by simp
  have ne': "?n \<noteq> []" by simp
  have len': "length ?f = length ?n" by simp
  have hn: "\<exists>x\<in>set ?n. isnan x" by (simp add: isnan_def)
  from argmax_f64_ties_lowest_frequency
         [where ls = ?ls and t = ?t and y = ?y and f = ?f and p = ?n and b = "''g''",
          OF lib' ne' len' grid]
  obtain i where i: "i < length ?n"
    and op': "object_peak_f64 ?ls ?t ?y = Inr (?n ! i, ?f ! i)"
    and nan: "(\<exists>x\<in>set ?n. isnan x) \<longrightarrow> isnan (?n ! i) \<and> (\<forall>j<i. \<not> isnan (?n ! j))"
    by blast
  from nan hn have isn: "isnan (?n ! i)" by blast
  from i have "i = 0 \<or> i = 1 \<or> i = 2" by auto
  with isn have "i = 1" by (auto simp: isnan_def)
  with op' have 2: "object_peak_f64 ?ls ?t ?y = Inr (NaN, Finite 2)" by simp
  from 1 2 show ?thesis by blast
qed




end
